theory Spec2Isabelle
  imports Complex_Main "HOL-Library.Multiset"
begin

section \<open>JavaScript primitives used by the extension\<close>

text \<open>
  Strings are modelled as byte strings (\<open>string\<close>): an ASCII character is one
  \<open>char\<close>, and the two non-ASCII literals of the source (the heart symbol and the
  kanji of the VAM fallback) are written as their UTF-8 bytes. The class \<open>\s\<close> and
  \<open>trim()\<close> are modelled with the ASCII white space characters, \<open>toLowerCase()\<close>
  with the ASCII letters. Numbers are exact: an integer is an \<open>int\<close>, a decimal a
  \<open>rat\<close> (the decimal value that JavaScript rounds to the nearest double), and the value
  NaN is \<open>None\<close>.
\<close>

definition is_digit :: "char \<Rightarrow> bool" where
  "is_digit c = (c \<in> set ''0123456789'')"

definition digit_val :: "char \<Rightarrow> nat" where
  "digit_val c = of_char c - 48"

text \<open>The decimal value of a run of digits: \<open>parseInt\<close> on a capture of \<open>\d+\<close>.\<close>

definition digits_value :: "string \<Rightarrow> nat" where
  "digits_value ds = foldl (\<lambda>a c. 10 * a + digit_val c) 0 ds"

definition is_space :: "char \<Rightarrow> bool" where
  "is_space c = (c \<in> set [CHR 0x09, CHR 0x0A, CHR 0x0B, CHR 0x0C, CHR 0x0D, CHR 0x20])"

definition trim :: "string \<Rightarrow> string" where
  "trim s = rev (dropWhile is_space (rev (dropWhile is_space s)))"

definition is_upper :: "char \<Rightarrow> bool" where
  "is_upper c = (c \<in> set ''ABCDEFGHIJKLMNOPQRSTUVWXYZ'')"

definition to_lower :: "char \<Rightarrow> char" where
  "to_lower c = (if is_upper c then char_of (of_char c + (32::nat)) else c)"

definition toLowerCase :: "string \<Rightarrow> string" where
  "toLowerCase s = map to_lower s"

text \<open>\<open>s.startsWith(p)\<close>, its case-insensitive form (a literal under the flag \<open>i\<close>), and \<open>s.includes(p)\<close>.\<close>

definition startsWith :: "string \<Rightarrow> string \<Rightarrow> bool" where
  "startsWith s p = (take (length p) s = p)"

definition startsWith_ci :: "string \<Rightarrow> string \<Rightarrow> bool" where
  "startsWith_ci s p = (toLowerCase (take (length p) s) = toLowerCase p)"

fun str_includes :: "string \<Rightarrow> string \<Rightarrow> bool" where
  "str_includes [] p = (p = [])"
| "str_includes (c # cs) p = (startsWith (c # cs) p \<or> str_includes cs p)"

text \<open>
  \<open>String.prototype.match\<close> with a regular expression that has no flag \<open>g\<close> returns
  the leftmost match: the matcher \<open>m\<close> says what the expression matches at the start of
  a string, and \<open>search\<close> tries every start position from left to right.
\<close>

fun search :: "(string \<Rightarrow> 'a option) \<Rightarrow> string \<Rightarrow> 'a option" where
  "search m [] = m []"
| "search m (c # cs) = (case m (c # cs) of Some r \<Rightarrow> Some r | None \<Rightarrow> search m cs)"

text \<open>
  \<open>parseInt(s)\<close> with no radix: leading white space is skipped, a sign is read, the
  prefix \<open>0x\<close> selects radix 16, and the longest prefix of digits is the value; no digit
  gives NaN.
\<close>

definition radix_digit :: "char \<Rightarrow> nat option" where
  "radix_digit c =
     (if is_digit c then Some (of_char c - 48)
      else if c \<in> set ''abcdef'' then Some (of_char c - 87)
      else if c \<in> set ''ABCDEF'' then Some (of_char c - 55)
      else None)"

definition is_radix_digit :: "nat \<Rightarrow> char \<Rightarrow> bool" where
  "is_radix_digit r c = (case radix_digit c of Some d \<Rightarrow> d < r | None \<Rightarrow> False)"

definition radix_value :: "nat \<Rightarrow> string \<Rightarrow> nat" where
  "radix_value r z = foldl (\<lambda>a c. r * a + (case radix_digit c of Some d \<Rightarrow> d | None \<Rightarrow> 0)) 0 z"

definition parseInt :: "string \<Rightarrow> int option" where
  "parseInt str =
     (let s = dropWhile is_space str;
          negative = startsWith s ''-'' ;
          s1 = (if startsWith s ''-'' \<or> startsWith s ''+'' then drop 1 s else s);
          hex = (startsWith s1 ''0x'' \<or> startsWith s1 ''0X'');
          r = (if hex then 16 else 10);
          s2 = (if hex then drop 2 s1 else s1);
          z = takeWhile (is_radix_digit r) s2
      in if z = [] then None
         else Some ((if negative then - 1 else 1) * int (radix_value r z)))"

text \<open>
  \<open>parseFloat(s)\<close> on the strings the source passes to it: captures made of digits and
  at most one dot (after the commas are removed). The longest prefix \<open>digits [. digits]\<close>
  or \<open>. digits\<close> is the value; no digit gives NaN.
\<close>

definition parseFloat :: "string \<Rightarrow> rat option" where
  "parseFloat s =
     (let ip = takeWhile is_digit s;
          r = dropWhile is_digit s;
          fp = (if startsWith r ''.'' then takeWhile is_digit (drop 1 r) else [])
      in if ip = [] \<and> fp = [] then None
         else Some (of_nat (digits_value ip) + of_nat (digits_value fp) / 10 ^ length fp))"

text \<open>\<open>n.toString()\<close> of a non-negative integer.\<close>

fun string_of_nat :: "nat \<Rightarrow> string" where
  "string_of_nat n =
     (if n < 10 then [char_of (48 + n)] else string_of_nat (n div 10) @ [char_of (48 + n mod 10)])"

declare string_of_nat.simps [simp del]

text \<open>\<open>s.split(c)\<close> on a single character.\<close>

fun split_on :: "char \<Rightarrow> string \<Rightarrow> string list" where
  "split_on c [] = [[]]"
| "split_on c (x # xs) =
     (if x = c then [] # split_on c xs
      else (case split_on c xs of p # ps \<Rightarrow> (x # p) # ps | [] \<Rightarrow> [[x]]))"

text \<open>The first element of a list that a function maps to a value: a loop that breaks at the first hit.\<close>

fun first_some :: "('a \<Rightarrow> 'b option) \<Rightarrow> 'a list \<Rightarrow> 'b option" where
  "first_some f [] = None"
| "first_some f (x # xs) = (case f x of Some y \<Rightarrow> Some y | None \<Rightarrow> first_some f xs)"

section \<open>The DOM of a table row\<close>

text \<open>
  An element below a cell, as far as the selectors of the source look at it: its tag, its
  \<open>class\<close>, \<open>src\<close> and \<open>href\<close> attributes and its text. A cell is its
  \<open>textContent\<close> and its descendant elements in document order. A row is the list
  \<open>querySelectorAll('td')\<close> returns, its \<open>cells\<close> collection, and the position of
  the row among the rows of its closest \<open>tbody\<close> (\<open>None\<close> for a row outside a table
  body, such as a clone).
\<close>

record element =
  tag :: string
  classAttr :: "string option"
  srcAttr :: "string option"
  hrefAttr :: "string option"
  elemText :: string

record cell =
  textContent :: string
  descendants :: "element list"

record row =
  tds :: "cell list"
  cells :: "cell list"
  tbodyIndex :: "nat option"

text \<open>The class tokens of a \<open>class\<close> attribute: the selector \<open>.avatar\<close> looks for one of them.\<close>

definition class_tokens :: "string \<Rightarrow> string list" where
  "class_tokens s = filter (\<lambda>w. w \<noteq> []) (split_on (CHR '' '') (map (\<lambda>c. if is_space c then CHR '' '' else c) s))"

definition attr_includes :: "string option \<Rightarrow> string \<Rightarrow> bool" where
  "attr_includes a p = (case a of None \<Rightarrow> False | Some v \<Rightarrow> str_includes v p)"

definition has_class :: "string \<Rightarrow> element \<Rightarrow> bool" where
  "has_class c e = (case classAttr e of None \<Rightarrow> False | Some v \<Rightarrow> c \<in> set (class_tokens v))"

text \<open>The five selectors of the avatar test, each \<open>querySelector(...) !== null\<close>.\<close>

definition hasAvatar :: "cell \<Rightarrow> bool" where
  "hasAvatar c =
     (list_ex (has_class ''avatar'') (descendants c) \<or>
      list_ex (\<lambda>e. tag e = ''img'') (descendants c) \<or>
      list_ex (\<lambda>e. attr_includes (classAttr e) ''avatar'') (descendants c) \<or>
      list_ex (\<lambda>e. attr_includes (srcAttr e) ''avatar'') (descendants c) \<or>
      list_ex (\<lambda>e. attr_includes (srcAttr e) ''profile'') (descendants c))"

text \<open>\<open>cell.querySelector('a[href*="/athletes/"]')\<close> and \<open>cell.querySelector('a')\<close>.\<close>

definition athleteLink :: "cell \<Rightarrow> element option" where
  "athleteLink c = find (\<lambda>e. tag e = ''a'' \<and> attr_includes (hrefAttr e) ''/athletes/'') (descendants c)"

definition firstAnchor :: "cell \<Rightarrow> element option" where
  "firstAnchor c = find (\<lambda>e. tag e = ''a'') (descendants c)"

text \<open>\<open>cell.textContent?.trim() || ''\<close>.\<close>

definition cellText :: "cell \<Rightarrow> string" where
  "cellText c = trim (textContent c)"

section \<open>The record extractor (DOMUtils.parseTableRow)\<close>

record LeaderboardRecord =
  rank :: int
  name :: string
  date :: string
  speed :: rat
  heartRate :: "int option"
  averageClimbingSpeed :: rat
  power' :: "int option"
  time :: string
  timeInSeconds :: int
  element :: row

text \<open>
  The expression \<open>/(\d+):(\d+)/\<close> at the start of a string: the longest run of digits,
  a colon, the longest run of digits. (A shorter first run would have to be followed by a
  colon where a digit stands, so the greedy reading is the only one.)
\<close>

definition time_at :: "string \<Rightarrow> (string \<times> string) option" where
  "time_at s =
     (let m = takeWhile is_digit s; r = dropWhile is_digit s;
          sec = takeWhile is_digit (drop 1 r)
      in if m \<noteq> [] \<and> startsWith r '':'' \<and> sec \<noteq> [] then Some (m, sec) else None)"

text \<open>\<open>minutes * 60 + seconds\<close>; both captures are runs of digits, so neither is NaN.\<close>

definition minutes_seconds :: "int option \<Rightarrow> int option \<Rightarrow> int" where
  "minutes_seconds minutes seconds =
     (case (minutes, seconds) of (Some m, Some s) \<Rightarrow> m * 60 + s | _ \<Rightarrow> 0)"

definition parseTimeToSeconds :: "string \<Rightarrow> int" where
  "parseTimeToSeconds timeStr =
     (case search time_at timeStr of
        Some (m, sec) \<Rightarrow> minutes_seconds (parseInt m) (parseInt sec)
      | None \<Rightarrow> 0)"

text \<open>
  The metric patterns. Each is a number followed by optional white space and a unit. The
  unit starts with a letter, which the number cannot hold, so the greedy reading of the
  number is the only one that lets the unit match, and the capture is that number.
  \<open>decimal_at\<close> reads \<open>(\d+\.?\d*)\<close>, \<open>digits_at\<close> reads \<open>(\d+)\<close> and
  \<open>vam_number_at\<close> reads \<open>(\d+,?\d*\.?\d*)\<close>; each returns the capture and the rest.
\<close>

definition digits_at :: "string \<Rightarrow> (string \<times> string) option" where
  "digits_at s =
     (let d = takeWhile is_digit s
      in if d = [] then None else Some (d, dropWhile is_digit s))"

definition opt_char_at :: "char \<Rightarrow> string \<Rightarrow> string \<times> string" where
  "opt_char_at c s = (if startsWith s [c] then ([c], drop 1 s) else ([], s))"

definition decimal_at :: "string \<Rightarrow> (string \<times> string) option" where
  "decimal_at s =
     (case digits_at s of
        None \<Rightarrow> None
      | Some (d1, r1) \<Rightarrow>
          (let (dot, r2) = opt_char_at (CHR ''.'') r1
           in Some (d1 @ dot @ takeWhile is_digit r2, dropWhile is_digit r2)))"

definition vam_number_at :: "string \<Rightarrow> (string \<times> string) option" where
  "vam_number_at s =
     (case digits_at s of
        None \<Rightarrow> None
      | Some (d1, r1) \<Rightarrow>
          (let (comma, r2) = opt_char_at (CHR '','') r1;
               d2 = takeWhile is_digit r2; r3 = dropWhile is_digit r2;
               (dot, r4) = opt_char_at (CHR ''.'') r3
           in Some (d1 @ comma @ d2 @ dot @ takeWhile is_digit r4, dropWhile is_digit r4)))"

text \<open>A number, \<open>\s*\<close>, and a unit tested by \<open>unit\<close> on what follows.\<close>

definition number_unit_at ::
  "(string \<Rightarrow> (string \<times> string) option) \<Rightarrow> (string \<Rightarrow> bool) \<Rightarrow> string \<Rightarrow> string option" where
  "number_unit_at number unit s =
     (case number s of
        None \<Rightarrow> None
      | Some (g, r) \<Rightarrow> if unit (dropWhile is_space r) then Some g else None)"

text \<open>A literal tested by \<open>lit\<close> of length \<open>n\<close>, a run of separators, and a number.\<close>

definition unit_number_at ::
  "(string \<Rightarrow> bool) \<Rightarrow> nat \<Rightarrow> (char \<Rightarrow> bool) \<Rightarrow> (string \<Rightarrow> (string \<times> string) option) \<Rightarrow> string \<Rightarrow> string option" where
  "unit_number_at lit n sep number s =
     (if lit s then map_option fst (number (dropWhile sep (drop n s))) else None)"

text \<open>\<open>a || b\<close> on match results: the first that is not null.\<close>

definition or_else :: "'a option \<Rightarrow> 'a option \<Rightarrow> 'a option" where
  "or_else a b = (case a of Some x \<Rightarrow> Some x | None \<Rightarrow> b)"

definition heart :: string where
  "heart = [CHR 0xE2, CHR 0x99, CHR 0xA5]"

definition kanji_ji :: string where
  "kanji_ji = [CHR 0xE6, CHR 0x99, CHR 0x82]"

definition is_word_char :: "char \<Rightarrow> bool" where
  "is_word_char c = (is_digit c \<or> is_upper c \<or> c \<in> set ''abcdefghijklmnopqrstuvwxyz_'')"

text \<open>\<open>\b\<close> after a word character: the end of the string or a character that is not a word character.\<close>

definition word_end :: "string \<Rightarrow> bool" where
  "word_end s = (case s of [] \<Rightarrow> True | c # _ \<Rightarrow> \<not> is_word_char c)"

definition speedMatch :: "string \<Rightarrow> string option" where
  "speedMatch t =
     or_else (search (number_unit_at decimal_at
                (\<lambda>u. startsWith_ci u ''km/h'' \<or> startsWith_ci u ''mph'' \<or> startsWith_ci u ''kph'')) t)
    (or_else (search (number_unit_at decimal_at (\<lambda>u. startsWith u ''km'')) t)
             (search (number_unit_at decimal_at (\<lambda>u. startsWith_ci u ''mph'')) t))"

definition heartRateMatch :: "string \<Rightarrow> string option" where
  "heartRateMatch t =
     or_else (search (number_unit_at digits_at
                (\<lambda>u. startsWith_ci u ''bpm'' \<or> startsWith u heart)) t)
    (or_else (search (number_unit_at digits_at (\<lambda>u. startsWith_ci u ''bpm'')) t)
             (search (unit_number_at (\<lambda>u. startsWith u heart) (length heart) is_space digits_at) t))"

definition powerMatch :: "string \<Rightarrow> string option" where
  "powerMatch t =
     or_else (search (number_unit_at digits_at
                (\<lambda>u. startsWith_ci u ''w'' \<or> startsWith_ci u ''watts'')) t)
    (or_else (search (number_unit_at digits_at (\<lambda>u. startsWith u ''W'' \<and> word_end (drop 1 u))) t)
             (search (number_unit_at digits_at (\<lambda>u. startsWith_ci u ''watts'')) t))"

definition climbingSpeedMatch :: "string \<Rightarrow> string option" where
  "climbingSpeedMatch t =
     or_else (search (number_unit_at vam_number_at
                (\<lambda>u. startsWith_ci u ''m/min'' \<or> startsWith_ci u ''vam'')) t)
    (or_else (search (number_unit_at vam_number_at (\<lambda>u. startsWith_ci u ''VAM'')) t)
    (or_else (search (number_unit_at vam_number_at (\<lambda>u. startsWith_ci u ''m/min'')) t)
             (search (unit_number_at (\<lambda>u. startsWith_ci u ''VAM'') 3
                        (\<lambda>c. c = CHR '':'' \<or> is_space c) vam_number_at) t)))"

text \<open>\<open>s.replace(',', '')\<close>: the first comma is removed.\<close>

fun remove_first_comma :: "string \<Rightarrow> string" where
  "remove_first_comma [] = []"
| "remove_first_comma (c # cs) = (if c = CHR '','' then cs else c # remove_first_comma cs)"

text \<open>
  A value with a default. A number of the record is read by \<open>parseFloat\<close> or
  \<open>parseInt\<close> from a capture; a capture starts with a digit, so the result is never
  NaN and the default is never used.
\<close>

definition value_or :: "'a \<Rightarrow> 'a option \<Rightarrow> 'a" where
  "value_or d v = (case v of Some x \<Rightarrow> x | None \<Rightarrow> d)"

definition rankOf :: "cell \<Rightarrow> nat \<Rightarrow> int" where
  "rankOf rankCell index =
     (let rankText = cellText rankCell
      in if rankText = [] \<or> hasAvatar rankCell
         then (if hasAvatar rankCell then 1 else int index + 1)
         else (case parseInt rankText of
                 None \<Rightarrow> int index + 1
               | Some n \<Rightarrow> if n = 0 then int index + 1 else n))"

definition nameOf :: "cell list \<Rightarrow> string" where
  "nameOf cs =
     (let found = first_some (\<lambda>c. map_option (\<lambda>l. (trim (elemText l), c)) (athleteLink c)) (take 3 cs);
          (name0, nameCell) = (case found of Some (n, c) \<Rightarrow> (n, c) | None \<Rightarrow> ([], cs ! 1))
      in if name0 = [] then cellText nameCell else name0)"

definition dateOf :: "cell \<Rightarrow> string" where
  "dateOf c =
     (let linkText = (case firstAnchor c of Some a \<Rightarrow> trim (elemText a) | None \<Rightarrow> [])
      in if linkText \<noteq> [] then linkText else cellText c)"

definition speedOf :: "cell list \<Rightarrow> rat" where
  "speedOf cs =
     (case first_some (\<lambda>c. speedMatch (cellText c)) (take 4 (drop 2 cs)) of
        Some g \<Rightarrow> value_or 0 (parseFloat g)
      | None \<Rightarrow> 0)"

definition heartRateOf :: "cell list \<Rightarrow> int option" where
  "heartRateOf cs =
     map_option (\<lambda>g. value_or 0 (parseInt g))
       (first_some (\<lambda>c. heartRateMatch (cellText c)) (take 4 (drop 2 cs)))"

definition powerOf :: "cell list \<Rightarrow> int option" where
  "powerOf cs =
     map_option (\<lambda>g. value_or 0 (parseInt g))
       (first_some (\<lambda>c. powerMatch (cellText c)) (take 4 (drop 2 cs)))"

text \<open>The time is looked for in the last three cells, never before the third cell.\<close>

definition timeOf :: "cell list \<Rightarrow> string \<times> int" where
  "timeOf cs =
     (case first_some (\<lambda>c. map_option (\<lambda>_. cellText c) (search time_at (cellText c)))
             (drop (max 2 (length cs - 3)) cs) of
        Some t \<Rightarrow> (t, parseTimeToSeconds t)
      | None \<Rightarrow> ([], 0))"

definition averageClimbingSpeedOf :: "cell list \<Rightarrow> rat" where
  "averageClimbingSpeedOf cs =
     (let v = (case first_some (\<lambda>c. climbingSpeedMatch (cellText c)) (take 6 (drop 2 cs)) of
                 Some g \<Rightarrow> value_or 0 (parseFloat (remove_first_comma g))
               | None \<Rightarrow> 0)
      in if v = 0 \<and> length cs > 6
         then (let cell6Text = cellText (cs ! 6)
               in case search vam_number_at cell6Text of
                    None \<Rightarrow> v
                  | Some (g, _) \<Rightarrow>
                      if \<not> str_includes cell6Text ''km'' \<and> \<not> str_includes cell6Text kanji_ji
                         \<and> \<not> str_includes cell6Text '':''
                      then (let potentialVAM = value_or 0 (parseFloat (remove_first_comma g))
                            in if potentialVAM > 100 \<and> potentialVAM < 5000 then potentialVAM else v)
                      else v)
         else v)"

definition parseTableRow :: "row \<Rightarrow> nat \<Rightarrow> LeaderboardRecord option" where
  "parseTableRow r index =
     (let cs = tds r
      in if length cs < 3 then None
         else Some \<lparr> rank = rankOf (cs ! 0) index,
                     name = nameOf cs,
                     date = dateOf (cs ! 2),
                     speed = speedOf cs,
                     heartRate = heartRateOf cs,
                     averageClimbingSpeed = averageClimbingSpeedOf cs,
                     power' = powerOf cs,
                     time = fst (timeOf cs),
                     timeInSeconds = snd (timeOf cs),
                     element = r \<rparr>)"

text \<open>
  \<open>tbody.querySelectorAll('tr')\<close>: the rows of a table body, each at its position, and
  the loop that parses them and keeps the records of the rows that parse.
\<close>

definition tbody_rows :: "row list \<Rightarrow> row list" where
  "tbody_rows rs = map (\<lambda>(i, r). r\<lparr>tbodyIndex := Some i\<rparr>) (enumerate 0 rs)"

definition parse_rows :: "row list \<Rightarrow> LeaderboardRecord list" where
  "parse_rows rs = List.map_filter (\<lambda>(index, r). parseTableRow r index) (enumerate 0 rs)"

subsection \<open>Example rows\<close>

definition td :: "string \<Rightarrow> cell" where
  "td t = \<lparr>textContent = t, descendants = []\<rparr>"

definition row_of :: "cell list \<Rightarrow> row" where
  "row_of cs = \<lparr>tds = cs, cells = cs, tbodyIndex = None\<rparr>"

definition row_mmss :: row where
  "row_mmss = row_of [td ''4'', td ''Jane Doe'', td ''2024'', td ''12:34'']"

definition row_hms :: row where
  "row_hms = row_of [td ''4'', td ''Jane Doe'', td ''2024'', td ''1:02:03'']"

definition avatar_img :: element where
  "avatar_img = \<lparr>tag = ''img'', classAttr = Some ''avatar-img'', srcAttr = Some ''/avatars/7.jpg'',
                  hrefAttr = None, elemText = []\<rparr>"

definition row_avatar_text :: row where
  "row_avatar_text =
     row_of [\<lparr>textContent = ''5'', descendants = [avatar_img]\<rparr>, td ''Jane Doe'', td ''2024'', td ''12:34'']"

definition row_negative :: row where
  "row_negative = row_of [td ''-3'', td ''Jane Doe'', td ''2024'', td ''12:34'']"

definition row_metrics :: row where
  "row_metrics =
     row_of [td ''2'', td ''Jane Doe'', td ''2024'', td ''1,234.5 km/h'', td ''185 bpm'', td ''250W'', td ''12:34'']"

section \<open>The page and its pagination (DOMUtils.getTotalPages)\<close>

text \<open>
  The page as the resolver queries it. A node is an element a selector finds: its
  \<open>textContent\<close>, its attributes and the anchors below it in document order. An anchor
  has its \<open>href\<close> attribute (\<open>getAttribute('href')\<close>), its \<open>href\<close> property (the
  resolved address) and its text. The document answers \<open>querySelector\<close> for a selector
  with the first element that matches. The address parser of the browser is not modelled:
  \<open>urlSearchParams u\<close> is the list of query parameters that \<open>new URL(u, origin)\<close> has,
  and \<open>None\<close> when the constructor throws.
\<close>

record anchor =
  href :: "string option"
  hrefProperty :: string
  anchorText :: string

record node =
  nodeText :: string
  attributes :: "(string \<times> string) list"
  anchors :: "anchor list"

record input =
  inputType :: string
  inputName :: string
  inputValue :: string

record document =
  querySelector :: "string \<Rightarrow> node option"
  allAnchors :: "anchor list"
  filterLinkAnchors :: "anchor list"
  forms :: "input list list"
  leaderboardContainer :: "(string \<times> string) list option"
  origin :: string
  pathname :: string
  locationHref :: string
  urlSearchParams :: "string \<Rightarrow> (string \<times> string) list option"

text \<open>\<open>/page=(\d+)/\<close> at the start of a string, and \<open>/\d+/g\<close>: every maximal run of digits.\<close>

definition page_at :: "string \<Rightarrow> string option" where
  "page_at s =
     (let d = takeWhile is_digit (drop 5 s)
      in if startsWith s ''page='' \<and> d \<noteq> [] then Some d else None)"

fun digit_runs_from :: "string \<Rightarrow> string \<Rightarrow> string list" where
  "digit_runs_from run [] = (if run = [] then [] else [run])"
| "digit_runs_from run (c # cs) =
     (if is_digit c then digit_runs_from (run @ [c]) cs
      else (if run = [] then [] else [run]) @ digit_runs_from [] cs)"

definition digit_runs :: "string \<Rightarrow> string list" where
  "digit_runs s = digit_runs_from [] s"

text \<open>
  The page number of an anchor that the selector \<open>a[href*="page="]\<close> finds and whose
  \<open>href\<close> matches \<open>/page=(\d+)/\<close>.
\<close>

definition link_page :: "anchor \<Rightarrow> int option" where
  "link_page l =
     (case href l of
        None \<Rightarrow> None
      | Some h \<Rightarrow>
          if str_includes h ''page='' \<and> h \<noteq> []
          then map_option (\<lambda>d. value_or 0 (parseInt d)) (search page_at h)
          else None)"

definition scan_links :: "anchor list \<Rightarrow> int \<Rightarrow> int" where
  "scan_links ls maxPage =
     fold (\<lambda>l m. case link_page l of Some pageNum \<Rightarrow> if pageNum > m then pageNum else m | None \<Rightarrow> m)
       ls maxPage"

definition scan_text :: "string \<Rightarrow> int \<Rightarrow> int" where
  "scan_text t maxPage =
     fold (\<lambda>numStr m. let num = value_or 0 (parseInt numStr)
                      in if num > m \<and> num < 1000 then num else m)
       (digit_runs t) maxPage"

definition paginationSelectors :: "string list" where
  \<open>paginationSelectors =
     [''.pagination'', ''nav[role="navigation"]'', ''ul[role="navigation"]'',
      ''.pagination-wrapper'', ''.leaderboard-pagination'', ''nav ul'']\<close>

text \<open>The loop over the selectors: a selector that finds nothing is skipped, and the loop breaks once \<open>maxPage > 1\<close>.\<close>

fun scan_containers :: "node option list \<Rightarrow> int \<Rightarrow> int" where
  "scan_containers [] maxPage = maxPage"
| "scan_containers (None # cs) maxPage = scan_containers cs maxPage"
| "scan_containers (Some pagination # cs) maxPage =
     (let m = scan_text (nodeText pagination) (scan_links (anchors pagination) maxPage)
      in if m > 1 then m else scan_containers cs m)"

definition getTotalPages :: "document \<Rightarrow> int" where
  "getTotalPages doc =
     (let maxPage = scan_containers (map (querySelector doc) paginationSelectors) 1
      in if maxPage = 1 then scan_links (allAnchors doc) maxPage else maxPage)"

text \<open>
  What the function takes from one pagination container: the largest of 1, the numbers it
  reads from the \<open>href\<close> of its links and the numbers below 1000 in its text.
\<close>

definition text_numbers :: "string \<Rightarrow> int list" where
  "text_numbers t = map (\<lambda>numStr. value_or 0 (parseInt numStr)) (digit_runs t)"

definition container_max :: "node \<Rightarrow> int" where
  "container_max p =
     Max (insert 1 (set (List.map_filter link_page (anchors p)) \<union>
                    {n \<in> set (text_numbers (nodeText p)). n < 1000}))"

text \<open>
  What the description of \<open>totalPages\<close> names, for one pagination container: the largest
  of 1, the page numbers of its links and the numbers below 1000 in its text, with the links
  named by their \<open>href\<close> and not by what the function reads from it. A link to page
  \<open>k\<close> has the query parameter \<open>page\<close> in its \<open>href\<close>: after a \<open>?\<close> or a \<open>&\<close> the text \<open>page=\<close>, the digits of \<open>k\<close> and then the
  end or a character that is no digit. The text \<open>page=\<close> does not occur before the
  parameter, so an \<open>href\<close> such as \<open>?per_page=25&page=3\<close> is not of this form. A
  container has plain links when each of its anchors is such a link or has no \<open>page=\<close>
  in its \<open>href\<close>.
\<close>

definition plain_page_link :: "anchor \<Rightarrow> int \<Rightarrow> bool" where
  "plain_page_link a k =
     (\<exists>pre ds post.
        href a = Some (pre @ ''page='' @ ds @ post)
        \<and> pre \<noteq> [] \<and> last pre \<in> {CHR ''?'', CHR ''&''}
        \<and> \<not> str_includes pre ''page=''
        \<and> ds \<noteq> [] \<and> list_all is_digit ds
        \<and> (post = [] \<or> \<not> is_digit (hd post))
        \<and> k = int (digits_value ds))"

definition plain_links :: "node \<Rightarrow> bool" where
  "plain_links p =
     list_all (\<lambda>a. \<not> attr_includes (href a) ''page='' \<or> (\<exists>k. plain_page_link a k)) (anchors p)"

definition href_pages :: "node \<Rightarrow> int set" where
  "href_pages p = {k. \<exists>a \<in> set (anchors p). plain_page_link a k}"

definition page_max :: "node \<Rightarrow> int" where
  "page_max p = Max (insert 1 (href_pages p \<union> {n \<in> set (text_numbers (nodeText p)). n < 1000}))"

subsection \<open>Example pages\<close>

definition page_link :: "string \<Rightarrow> anchor" where
  "page_link h = \<lparr>href = Some h, hrefProperty = h, anchorText = []\<rparr>"

definition empty_document :: document where
  "empty_document =
     \<lparr>querySelector = (\<lambda>_. None), allAnchors = [], filterLinkAnchors = [], forms = [],
      leaderboardContainer = None, origin = ''https://www.strava.com'',
      pathname = ''/segments/123'', locationHref = ''https://www.strava.com/segments/123'',
      urlSearchParams = (\<lambda>_. Some [])\<rparr>"

definition with_pagination :: "node \<Rightarrow> document \<Rightarrow> document" where
  "with_pagination p doc =
     doc\<lparr>querySelector := (\<lambda>s. if s = ''.pagination'' then Some p else querySelector doc s)\<rparr>"

definition seven_pages :: node where
  "seven_pages =
     \<lparr>nodeText = ''1 2 3 ... 7 of 2500'', attributes = [],
      anchors = map page_link [''?page=3'', ''?page=1'', ''?page=7'', ''?page=2'', ''?page=6'',
                               ''?page=4'', ''?page=5'']\<rparr>"

definition seven_pages_and_far_link :: node where
  "seven_pages_and_far_link =
     seven_pages\<lparr>anchors := anchors seven_pages @ [page_link ''?page=1500'']\<rparr>"

text \<open>Links to the pages 1 to 3 of a listing with 25 entries a page.\<close>

definition three_pages_of_25 :: node where
  "three_pages_of_25 =
     \<lparr>nodeText = ''1 2 3'', attributes = [],
      anchors = map page_link [''?per_page=25&page=1'', ''?per_page=25&page=2'',
                               ''?per_page=25&page=3'']\<rparr>"

section \<open>The sort controller (TableSorter)\<close>

text \<open>
  A value \<open>getCellValue\<close> returns is a string, a number or a \<open>Date\<close>. The functions of
  the platform that the comparison calls are parameters: \<open>dateValue y m d\<close> is the time
  value of \<open>new Date(y, m, d)\<close>, \<open>toString v\<close> is \<open>String(v)\<close> and \<open>localeCompare\<close>
  is the comparison of two strings in the user's locale.
\<close>

datatype cellvalue = StringValue string | NumberValue rat | DateValue int

record platform =
  dateValue :: "int \<Rightarrow> int \<Rightarrow> int \<Rightarrow> int"
  toString :: "cellvalue \<Rightarrow> string"
  localeCompare :: "string \<Rightarrow> string \<Rightarrow> int"

datatype direction = Asc | Desc

record SortConfig =
  column :: int
  direction :: direction

text \<open>
  \<open>/^[\d,]+\.?\d*/\<close>: the whole match, a run of digits and commas, an optional dot and
  a run of digits. \<open>replace(/,/g, '')\<close> removes every comma.
\<close>

definition numericMatch :: "string \<Rightarrow> string option" where
  "numericMatch text =
     (let g = takeWhile (\<lambda>c. is_digit c \<or> c = CHR '','') text;
          r = dropWhile (\<lambda>c. is_digit c \<or> c = CHR '','') text;
          (dot, r2) = opt_char_at (CHR ''.'') r
      in if g = [] then None else Some (g @ dot @ takeWhile is_digit r2))"

definition remove_commas :: "string \<Rightarrow> string" where
  "remove_commas s = filter (\<lambda>c. c \<noteq> CHR '','') s"

definition kanji_year :: string where
  "kanji_year = [CHR 0xE5, CHR 0xB9, CHR 0xB4]"

definition kanji_month :: string where
  "kanji_month = [CHR 0xE6, CHR 0x9C, CHR 0x88]"

definition kanji_day :: string where
  "kanji_day = [CHR 0xE6, CHR 0x97, CHR 0xA5]"

text \<open>
  \<open>\d{1,2}\<close> before a character that is not a digit: a run of one or two digits (of a
  longer run no part is followed by that character). The date expression
  \<open>/(\d{4})Y(\d{1,2})M(\d{1,2})D/\<close>, with the kanji for year, month and day, at the
  start of a string.
\<close>

definition digits12_at :: "string \<Rightarrow> (string \<times> string) option" where
  "digits12_at s =
     (let d = takeWhile is_digit s
      in if length d = 1 \<or> length d = 2 then Some (d, dropWhile is_digit s) else None)"

definition date_at :: "string \<Rightarrow> (string \<times> string \<times> string) option" where
  "date_at s =
     (let y = take 4 s; r1 = drop 4 s
      in if length y = 4 \<and> list_all is_digit y \<and> startsWith r1 kanji_year
         then (case digits12_at (drop 3 r1) of
                 None \<Rightarrow> None
               | Some (m, r2) \<Rightarrow>
                   if startsWith r2 kanji_month
                   then (case digits12_at (drop 3 r2) of
                           None \<Rightarrow> None
                         | Some (d, r3) \<Rightarrow> if startsWith r3 kanji_day then Some (y, m, d) else None)
                   else None)
         else None)"

text \<open>\<open>/^(\d{1,2}):(\d{2})(?::(\d{2}))?$/\<close> on the whole text; the seconds default to \<open>'0'\<close>.\<close>

definition timeMatch :: "string \<Rightarrow> (string \<times> string \<times> string) option" where
  "timeMatch text =
     (case digits12_at text of
        None \<Rightarrow> None
      | Some (h, r1) \<Rightarrow>
          (let m = take 2 (drop 1 r1); r2 = drop 3 r1; sec = drop 1 r2
           in if startsWith r1 '':'' \<and> length m = 2 \<and> list_all is_digit m
              then (if r2 = [] then Some (h, m, ''0'')
                    else if startsWith r2 '':'' \<and> length sec = 2 \<and> list_all is_digit sec
                    then Some (h, m, sec) else None)
              else None))"

text \<open>
  The rank column: an avatar is rank 1, a text that \<open>parseInt\<close> reads is that number,
  and otherwise a row inside a table body gets its position in it. \<open>None\<close> when the code
  falls through to the treatment of the other columns.
\<close>

definition rankCellValue :: "row \<Rightarrow> cell \<Rightarrow> string \<Rightarrow> cellvalue option" where
  "rankCellValue r c text =
     (if hasAvatar c then Some (NumberValue 1)
      else (case (if text \<noteq> [] \<and> text \<noteq> ''-'' then parseInt text else None) of
              Some rankValue \<Rightarrow> Some (NumberValue (of_int rankValue))
            | None \<Rightarrow>
                (case tbodyIndex r of
                   Some rowIndex \<Rightarrow> Some (NumberValue (of_nat rowIndex + 1))
                 | None \<Rightarrow> None)))"

definition textCellValue :: "platform \<Rightarrow> string \<Rightarrow> cellvalue" where
  "textCellValue pf text =
     (if text = [] \<or> text = ''-'' then StringValue []
      else (case (case numericMatch text of
                    None \<Rightarrow> None
                  | Some g \<Rightarrow> parseFloat (remove_commas g)) of
              Some numericValue \<Rightarrow> NumberValue numericValue
            | None \<Rightarrow>
                (case search date_at text of
                   Some (y, m, d) \<Rightarrow>
                     DateValue (dateValue pf (value_or 0 (parseInt y)) (value_or 0 (parseInt m) - 1)
                                  (value_or 0 (parseInt d)))
                 | None \<Rightarrow>
                     (case timeMatch text of
                        Some (h, m, sec) \<Rightarrow>
                          NumberValue (of_int (value_or 0 (parseInt h) * 3600
                                        + value_or 0 (parseInt m) * 60 + value_or 0 (parseInt sec)))
                      | None \<Rightarrow> StringValue (toLowerCase text)))))"

definition getCellValue :: "platform \<Rightarrow> row \<Rightarrow> int \<Rightarrow> cellvalue" where
  "getCellValue pf r columnIndex =
     (if columnIndex < 0 \<or> int (length (cells r)) \<le> columnIndex then StringValue []
      else (let c = cells r ! nat columnIndex; text = cellText c
            in case (if columnIndex = 0 then rankCellValue r c text else None) of
                 Some v \<Rightarrow> v
               | None \<Rightarrow> textCellValue pf text))"

text \<open>\<open>typeof\<close> of a cell value, and \<open>a < b\<close> on two values of one type: strings by their characters, numbers and dates by their value.\<close>

fun str_less :: "string \<Rightarrow> string \<Rightarrow> bool" where
  "str_less [] [] = False"
| "str_less [] (y # ys) = True"
| "str_less (x # xs) [] = False"
| "str_less (x # xs) (y # ys) =
     ((of_char x :: nat) < of_char y \<or> (x = y \<and> str_less xs ys))"

fun same_type :: "cellvalue \<Rightarrow> cellvalue \<Rightarrow> bool" where
  "same_type (StringValue a) (StringValue b) = True"
| "same_type (NumberValue a) (NumberValue b) = True"
| "same_type (DateValue a) (DateValue b) = True"
| "same_type a b = False"

fun value_less :: "cellvalue \<Rightarrow> cellvalue \<Rightarrow> bool" where
  "value_less (StringValue a) (StringValue b) = str_less a b"
| "value_less (NumberValue a) (NumberValue b) = (a < b)"
| "value_less (DateValue a) (DateValue b) = (a < b)"
| "value_less a b = False"

text \<open>The comparison function that \<open>sortData\<close> passes to \<open>sort\<close>.\<close>

definition compareRecords :: "platform \<Rightarrow> SortConfig \<Rightarrow> LeaderboardRecord \<Rightarrow> LeaderboardRecord \<Rightarrow> int" where
  "compareRecords pf st a b =
     (let aValue = getCellValue pf (element a) (column st);
          bValue = getCellValue pf (element b) (column st)
      in if aValue = StringValue [] \<and> bValue = StringValue [] then 0
         else if aValue = StringValue [] then 1
         else if bValue = StringValue [] then - 1
         else (let result =
                     (if same_type aValue bValue
                      then (if value_less aValue bValue then - 1
                            else if value_less bValue aValue then 1 else 0)
                      else localeCompare pf (toString pf aValue) (toString pf bValue))
               in if direction st = Desc then - result else result))"

text \<open>
  \<open>Array.prototype.sort\<close> with a comparison function. ECMAScript fixes the result for a
  consistent comparison function: the stable sort, which every stable algorithm computes.
  For other comparison functions the order is left to the implementation; the model is
  the stable insertion sort, which places every element after the elements it does not
  precede.
\<close>

fun insert_by :: "('a \<Rightarrow> 'a \<Rightarrow> int) \<Rightarrow> 'a \<Rightarrow> 'a list \<Rightarrow> 'a list" where
  "insert_by cmp x [] = [x]"
| "insert_by cmp x (y # ys) = (if cmp x y \<le> 0 then x # y # ys else y # insert_by cmp x ys)"

definition array_sort :: "('a \<Rightarrow> 'a \<Rightarrow> int) \<Rightarrow> 'a list \<Rightarrow> 'a list" where
  "array_sort cmp xs = foldr (insert_by cmp) xs []"

text \<open>
  Arrays are objects: the store holds the arrays by address, \<open>[...data]\<close> allocates a new
  array with the elements of \<open>data\<close>, and \<open>sort\<close> sorts the array it is called on in place
  and returns it. \<open>sortData\<close> takes the address of its argument and returns the address of
  its result, with the store.
\<close>

type_synonym store = "LeaderboardRecord list list"

definition sortData :: "platform \<Rightarrow> SortConfig \<Rightarrow> store \<Rightarrow> nat \<Rightarrow> nat \<times> store" where
  "sortData pf st h data =
     (if column st = - 1 then (data, h)
      else (let copy = length h;
                h1 = h @ [h ! data];
                h2 = h1[copy := array_sort (compareRecords pf st) (h1 ! copy)]
            in (copy, h2)))"

text \<open>In a list, no element with the property comes before an element without it.\<close>

fun all_last :: "('a \<Rightarrow> bool) \<Rightarrow> 'a list \<Rightarrow> bool" where
  "all_last B [] = True"
| "all_last B (x # xs) = ((B x \<longrightarrow> list_all B xs) \<and> all_last B xs)"

subsection \<open>Example tables\<close>

definition example_platform :: platform where
  "example_platform =
     \<lparr>dateValue = (\<lambda>y m d. (y * 12 + m) * 31 + d),
      toString = (\<lambda>v. case v of StringValue s \<Rightarrow> s | NumberValue n \<Rightarrow> ''0'' | DateValue t \<Rightarrow> ''Date''),
      localeCompare = (\<lambda>a b. if str_less a b then - 1 else if str_less b a then 1 else 0)\<rparr>"

definition ranked_row :: "string \<Rightarrow> string \<Rightarrow> row" where
  "ranked_row r t = row_of [td r, td ''Jane Doe'', td ''2024'', td t]"

definition by_column :: "int \<Rightarrow> direction \<Rightarrow> SortConfig" where
  "by_column c d = \<lparr>column = c, direction = d\<rparr>"

definition column_texts :: "nat \<Rightarrow> LeaderboardRecord list \<Rightarrow> string list" where
  "column_texts c recs = map (\<lambda>r. cellText (cells (element r) ! c)) recs"

definition table_blank_times :: "LeaderboardRecord list" where
  "table_blank_times =
     parse_rows [ranked_row ''1'' ''10:00'', ranked_row ''2'' [], ranked_row ''3'' ''-'',
                 ranked_row ''4'' ''12:34'']"

definition table_blank_rank :: "LeaderboardRecord list" where
  "table_blank_rank = parse_rows (tbody_rows [ranked_row ''5'' ''12:34'', ranked_row [] ''10:00''])"

section \<open>The filter resolver (DOMUtils) and the page requests\<close>

text \<open>
  A JavaScript object with string keys is a list of pairs with distinct keys, in insertion
  order: an assignment to a key that is present keeps its place, a new key is appended
  (keys that are array indices, which an object lists first, do not occur among parameter
  names). \<open>{...a, ...b}\<close> assigns the entries of \<open>b\<close> to a copy of \<open>a\<close>.
\<close>

fun obj_set :: "string \<Rightarrow> string \<Rightarrow> (string \<times> string) list \<Rightarrow> (string \<times> string) list" where
  "obj_set k v [] = [(k, v)]"
| "obj_set k v (p # ps) = (if fst p = k then (k, v) # ps else p # obj_set k v ps)"

definition obj_merge :: "(string \<times> string) list \<Rightarrow> (string \<times> string) list \<Rightarrow> (string \<times> string) list" where
  "obj_merge a b = fold (\<lambda>(k, v) obj. obj_set k v obj) b a"

text \<open>\<open>URLSearchParams\<close>: \<open>get\<close> is the first value of a name, \<open>set\<close> replaces the first entry of the name and removes its other entries, or appends.\<close>

definition params_get :: "(string \<times> string) list \<Rightarrow> string \<Rightarrow> string option" where
  "params_get ps k = map_of ps k"

definition params_has :: "(string \<times> string) list \<Rightarrow> string \<Rightarrow> bool" where
  "params_has ps k = list_ex (\<lambda>p. fst p = k) ps"

fun params_set :: "string \<Rightarrow> string \<Rightarrow> (string \<times> string) list \<Rightarrow> (string \<times> string) list" where
  "params_set k v [] = [(k, v)]"
| "params_set k v (p # ps) =
     (if fst p = k then (k, v) # filter (\<lambda>q. fst q \<noteq> k) ps else p # params_set k v ps)"

definition getAttribute :: "node \<Rightarrow> string \<Rightarrow> string option" where
  "getAttribute n a = map_of (attributes n) a"

text \<open>A string or null in a condition or on the left of \<open>||\<close>: it counts when it is not null and not empty.\<close>

definition truthy :: "string option \<Rightarrow> string option" where
  "truthy a = (case a of None \<Rightarrow> None | Some s \<Rightarrow> if s = [] then None else Some s)"

record FilterState =
  filterType :: string
  filterValue :: string

definition possibleSelectors :: "string list" where
  "possibleSelectors =
     [''.btn-group .btn.active'', ''.nav-pills .nav-link.active'', ''.tab-content .active'',
      ''.filter-buttons .active'', ''[data-filter].active'', ''.leaderboard-filters .active'']"

definition detectCurrentFilter :: "document \<Rightarrow> FilterState option" where
  \<open>detectCurrentFilter doc =
     (case (case querySelector doc ''[data-role="active-filters"]'' of
              None \<Rightarrow> None
            | Some activeFiltersElement \<Rightarrow>
                (let filterText = trim (nodeText activeFiltersElement)
                 in if filterText \<noteq> []
                    then Some \<lparr>filterType = ''active-filters'', filterValue = filterText\<rparr>
                    else None)) of
        Some f \<Rightarrow> Some f
      | None \<Rightarrow>
          (case first_some (querySelector doc) possibleSelectors of
             None \<Rightarrow> None
           | Some activeButton \<Rightarrow>
               (let text = truthy (Some (trim (nodeText activeButton)));
                    dataFilter = truthy (getAttribute activeButton ''data-filter'');
                    hrefValue = truthy (getAttribute activeButton ''href'')
                in Some \<lparr>filterType = value_or ''text'' dataFilter,
                         filterValue = value_or [] (or_else dataFilter (or_else text hrefValue))\<rparr>)))\<close>

text \<open>
  \<open>parseUrlParams\<close>: the parameters of an address whose names are in its list of allowed
  names; the empty object when the address does not parse.
\<close>

definition urlAllowedParams :: "string list" where
  "urlAllowedParams = [''club_id'', ''filter'', ''per_page'', ''partial'']"

definition parseUrlParams :: "document \<Rightarrow> string \<Rightarrow> (string \<times> string) list" where
  "parseUrlParams doc url =
     (case urlSearchParams doc url of
        None \<Rightarrow> []
      | Some searchParams \<Rightarrow>
          fold (\<lambda>(key, value) params.
                  if key \<noteq> ''page'' \<and> key \<in> set urlAllowedParams then obj_set key value params
                  else params)
            searchParams [])"

definition activeFilterSelectors :: "string list" where
  "activeFilterSelectors =
     [''.filter-link.active'', ''.btn.active[data-filter]'', ''.nav-link.active[data-filter]'',
      ''[data-filter].active'', ''[data-value].active'', ''.selected[data-filter]'',
      ''.current[data-filter]'']"

text \<open>The anchors that the selector \<open>a[href*="leaderboard"]\<close> keeps.\<close>

definition leaderboardLinks :: "anchor list \<Rightarrow> anchor list" where
  "leaderboardLinks ls = filter (\<lambda>l. attr_includes (href l) ''leaderboard'') ls"

definition paramsFromPagination :: "document \<Rightarrow> (string \<times> string) list option" where
  "paramsFromPagination doc =
     (case querySelector doc ''.pagination'' of
        None \<Rightarrow> None
      | Some pagination \<Rightarrow>
          (case leaderboardLinks (anchors pagination) of
             [] \<Rightarrow> None
           | firstLink # _ \<Rightarrow>
               (let paginationParams = parseUrlParams doc (hrefProperty firstLink);
                    currentParams = parseUrlParams doc (locationHref doc)
                in if truthy (map_of paginationParams ''filter'') \<noteq> None
                      \<and> truthy (map_of currentParams ''filter'') \<noteq> None
                      \<and> map_of paginationParams ''filter'' \<noteq> map_of currentParams ''filter''
                   then Some paginationParams
                   else Some (obj_merge currentParams paginationParams))))"

definition paramsFromLocation :: "document \<Rightarrow> (string \<times> string) list option" where
  "paramsFromLocation doc =
     (let currentParams = parseUrlParams doc (locationHref doc)
      in if str_includes (pathname doc) ''/leaderboard'' \<and> currentParams \<noteq> []
         then Some currentParams else None)"

definition paramsFromActiveElement :: "document \<Rightarrow> (string \<times> string) list option" where
  "paramsFromActiveElement doc =
     first_some (\<lambda>selector.
         case querySelector doc selector of
           None \<Rightarrow> None
         | Some activeElement \<Rightarrow>
             map_option (parseUrlParams doc) (truthy (getAttribute activeElement ''href'')))
       activeFilterSelectors"

definition paramsFromFilterLinks :: "document \<Rightarrow> (string \<times> string) list option" where
  "paramsFromFilterLinks doc =
     first_some (\<lambda>link.
         case detectCurrentFilter doc of
           None \<Rightarrow> None
         | Some currentFilter \<Rightarrow>
             if trim (anchorText link) = filterValue currentFilter
             then Some (parseUrlParams doc (hrefProperty link)) else None)
       (leaderboardLinks (filterLinkAnchors doc))"

definition extractFilterParamsFromPage :: "document \<Rightarrow> (string \<times> string) list option" where
  "extractFilterParamsFromPage doc =
     or_else (paramsFromPagination doc)
    (or_else (paramsFromLocation doc)
    (or_else (paramsFromActiveElement doc) (paramsFromFilterLinks doc)))"

text \<open>\<open>getFilterRequestData\<close>: the detected filter and the form data gathered from the page.\<close>

record FilterRequestData =
  currentFilter :: "FilterState option"
  formData :: "(string \<times> string) list"

definition selectedInput :: "input \<Rightarrow> bool" where
  "selectedInput i =
     (inputType i = ''hidden'' \<or> str_includes (inputName i) ''filter''
      \<or> str_includes (inputName i) ''view'' \<or> str_includes (inputName i) ''segment'')"

definition addInputs :: "input list list \<Rightarrow> (string \<times> string) list \<Rightarrow> (string \<times> string) list" where
  "addInputs fs fd =
     fold (\<lambda>form fd1.
             fold (\<lambda>i fd2. if inputName i \<noteq> [] \<and> inputValue i \<noteq> []
                            then obj_set (inputName i) (inputValue i) fd2 else fd2)
               (filter selectedInput form) fd1)
       fs fd"

definition addDataAttributes :: "(string \<times> string) list option \<Rightarrow> (string \<times> string) list \<Rightarrow> (string \<times> string) list" where
  "addDataAttributes container fd =
     (case container of
        None \<Rightarrow> fd
      | Some attrs \<Rightarrow>
          fold (\<lambda>(attrName, attrValue) fd1.
                  if startsWith attrName ''data-'' then obj_set (drop 5 attrName) attrValue fd1 else fd1)
            attrs fd)"

text \<open>\<open>/\/segments\/(\d+)/\<close> at the start of a string.\<close>

definition segments_at :: "string \<Rightarrow> string option" where
  "segments_at s =
     (let d = takeWhile is_digit (drop 10 s)
      in if startsWith s ''/segments/'' \<and> d \<noteq> [] then Some d else None)"

definition addSegmentId :: "string \<Rightarrow> (string \<times> string) list \<Rightarrow> (string \<times> string) list" where
  "addSegmentId path fd =
     (case search segments_at path of None \<Rightarrow> fd | Some d \<Rightarrow> obj_set ''segment_id'' d fd)"

text \<open>The Japanese words the filter text is searched for, as UTF-8 bytes: results, follow, this year, all time.\<close>

definition word_results :: string where
  "word_results = [CHR 0xE7, CHR 0xB5, CHR 0x90, CHR 0xE6, CHR 0x9E, CHR 0x9C]"

definition word_follow :: string where
  "word_follow = [CHR 0xE3, CHR 0x83, CHR 0x95, CHR 0xE3, CHR 0x82, CHR 0xA9, CHR 0xE3, CHR 0x83, CHR 0xAD,
                  CHR 0xE3, CHR 0x83, CHR 0xBC]"

definition word_this_year :: string where
  "word_this_year = [CHR 0xE4, CHR 0xBB, CHR 0x8A, CHR 0xE5, CHR 0xB9, CHR 0xB4]"

definition word_all_time :: string where
  "word_all_time = [CHR 0xE5, CHR 0x85, CHR 0xA8, CHR 0xE6, CHR 0x9C, CHR 0x9F, CHR 0xE9, CHR 0x96, CHR 0x93]"

definition addFilterFromText ::
  "FilterState option \<Rightarrow> (string \<times> string) list option \<Rightarrow> (string \<times> string) list \<Rightarrow> (string \<times> string) list" where
  "addFilterFromText cf filterParams fd =
     (case cf of
        None \<Rightarrow> fd
      | Some f \<Rightarrow>
          if filterValue f \<noteq> [] \<and> filterParams = None
          then (let v = toLowerCase (filterValue f)
                in if str_includes v ''my'' \<or> str_includes v word_results
                   then obj_set ''filter'' ''my_results'' fd
                   else if str_includes v word_follow \<or> str_includes v ''follow''
                   then obj_set ''filter'' ''following'' fd
                   else if str_includes v word_this_year \<or> str_includes v ''current''
                   then obj_set ''filter'' ''current_year'' fd
                   else if str_includes v word_all_time \<or> str_includes v ''overall''
                   then obj_set ''filter'' ''overall'' fd
                   else fd)
          else fd)"

definition getFilterRequestData :: "document \<Rightarrow> FilterRequestData" where
  "getFilterRequestData doc =
     (let cf = detectCurrentFilter doc;
          filterParams = extractFilterParamsFromPage doc;
          fd0 = (case filterParams of None \<Rightarrow> [] | Some p \<Rightarrow> obj_merge [] p);
          fd1 = addInputs (forms doc) fd0;
          fd2 = addDataAttributes (leaderboardContainer doc) fd1;
          fd3 = addSegmentId (pathname doc) fd2;
          fd4 = addFilterFromText cf filterParams fd3
      in \<lparr>currentFilter = cf, formData = fd4\<rparr>)"

text \<open>
  An outbound request: the verb, the address without its query, the query parameters,
  the fields of the form body and the headers.
\<close>

datatype http_method = GET | POST

record request =
  httpMethod :: http_method
  url :: string
  query :: "(string \<times> string) list"
  body :: "(string \<times> string) list"
  headers :: "(string \<times> string) list"

text \<open>The leaderboard path that both request builders use.\<close>

definition leaderboardPath :: "document \<Rightarrow> string" where
  "leaderboardPath doc =
     (if \<not> str_includes (pathname doc) ''/leaderboard''
      then (let pathParts = split_on (CHR ''/'') (pathname doc)
            in if length pathParts \<ge> 3 \<and> pathParts ! 1 = ''segments''
               then ''/segments/'' @ pathParts ! 2 @ ''/leaderboard''
               else pathname doc)
      else pathname doc)"

definition ajaxHeaders :: "(string \<times> string) list" where
  "ajaxHeaders =
     [(''X-Requested-With'', ''XMLHttpRequest''),
      (''Accept'', ''text/html,application/xhtml+xml,application/xml;q=0.9,*/*;q=0.8''),
      (''Cache-Control'', ''no-cache'')]"

definition allowedParams :: "string list" where
  "allowedParams =
     [''club_id'', ''filter'', ''per_page'', ''partial'', ''date_range'', ''age_group'', ''weight_class'']"

definition importantParams :: "string list" where
  "importantParams =
     [''club_id'', ''per_page'', ''filter'', ''partial'', ''date_range'', ''age_group'', ''weight_class'']"

text \<open>The request of \<open>loadPageDataGET\<close>.\<close>

definition getPageRequest :: "document \<Rightarrow> nat \<Rightarrow> request" where
  "getPageRequest doc page =
     (let filterInfo = getFilterRequestData doc;
          q0 = params_set ''partial'' ''true'' (params_set ''page'' (string_of_nat page) []);
          q1 = fold (\<lambda>(key, value) q.
                       if value \<noteq> [] \<and> key \<noteq> ''page'' \<and> key \<in> set allowedParams
                       then params_set key value q else q)
                 (formData filterInfo) q0;
          original = (case urlSearchParams doc (locationHref doc) of None \<Rightarrow> [] | Some ps \<Rightarrow> ps);
          q2 = fold (\<lambda>param q.
                       case truthy (params_get original param) of
                         None \<Rightarrow> q
                       | Some value \<Rightarrow> if \<not> params_has q param then params_set param value q else q)
                 importantParams q1
      in \<lparr>httpMethod = GET, url = origin doc @ leaderboardPath doc, query = q2, body = [],
          headers = ajaxHeaders\<rparr>)"

text \<open>\<open>buildFilteredPageRequest\<close>: the request of the fallback.\<close>

definition csrfToken :: "document \<Rightarrow> string option" where
  \<open>csrfToken doc =
     (case querySelector doc ''meta[name="csrf-token"]'' of
        None \<Rightarrow> None
      | Some meta \<Rightarrow> truthy (getAttribute meta ''content''))\<close>

definition buildFilteredPageRequest :: "document \<Rightarrow> nat \<Rightarrow> request" where
  "buildFilteredPageRequest doc page =
     (let filterInfo = getFilterRequestData doc;
          b0 = [(''page'', string_of_nat page)];
          b1 = b0 @ filter (\<lambda>(key, value). value \<noteq> []) (formData filterInfo);
          token = csrfToken doc
      in \<lparr>httpMethod = POST, url = origin doc @ leaderboardPath doc, query = [],
          body = (case token of None \<Rightarrow> b1 | Some t \<Rightarrow> b1 @ [(''authenticity_token'', t)]),
          headers = (case token of None \<Rightarrow> ajaxHeaders | Some t \<Rightarrow> ajaxHeaders @ [(''X-CSRF-Token'', t)])\<rparr>)"

subsection \<open>Example page with a form\<close>

definition segment_page :: document where
  "segment_page =
     empty_document\<lparr>forms := [[\<lparr>inputType = ''hidden'', inputName = ''athlete_id'', inputValue = ''42''\<rparr>]],
                    urlSearchParams := (\<lambda>u. Some [(''filter'', ''overall''), (''utm_source'', ''mail'')])\<rparr>"

section \<open>The page aggregator (PageLoader)\<close>

text \<open>
  The world outside the loader: the page, the answer of the server to a request, and the
  user, who may use the cancel control while the loader waits for a page or pauses after
  it (\<open>cancelDuring p\<close>). An answer is a transport error or a response with its status
  and the rows of the \<open>.table-leaderboard tbody\<close> of its parsed body (\<open>None\<close> when the
  body has no such element).
\<close>

datatype fetch_outcome = TransportError | Response int "row list option"

record world =
  dom :: document
  respond :: "request \<Rightarrow> fetch_outcome"
  cancelDuring :: "nat \<Rightarrow> bool"

text \<open>
  The state of a \<open>PageLoader\<close> and of what it acts on: its three fields, the rows of the
  table body (\<open>None\<close> when the table has no body), the alerts raised, the requests sent
  and whether the pagination of the page is hidden. The progress indicator, the labels of
  the buttons and the success notice are presentation only and left out.
\<close>

datatype alert = PageLoadError

record loader =
  isLoadingAllPages :: bool
  loadingAborted :: bool
  allPagesData :: "LeaderboardRecord list"
  tableBody :: "row list option"
  alerts :: "alert list"
  requests :: "request list"
  paginationHidden :: bool

text \<open>\<open>row.cloneNode(true)\<close>: a copy of the row outside any table body. A row removed from its table body is in the same condition.\<close>

definition cloneNode :: "row \<Rightarrow> row" where
  "cloneNode r = r\<lparr>tbodyIndex := None\<rparr>"

definition parsePageData :: "row list option \<Rightarrow> LeaderboardRecord list" where
  "parsePageData tb =
     (case tb of
        None \<Rightarrow> []
      | Some rws \<Rightarrow>
          List.map_filter
            (\<lambda>(index, r). map_option (\<lambda>parsedData. parsedData\<lparr>element := cloneNode r\<rparr>)
                              (parseTableRow r index))
            (enumerate 0 (tbody_rows rws)))"

text \<open>
  \<open>fetch\<close> and the two \<open>then\<close> steps after it: a transport error or a status outside
  200 to 299 is an error, which the \<open>catch\<close> at the end of the chain turns into the empty
  list.
\<close>

datatype fetch_error = NetworkFailure | HttpError int

definition fetchPage :: "world \<Rightarrow> request \<Rightarrow> fetch_error + LeaderboardRecord list" where
  "fetchPage w req =
     (case respond w req of
        TransportError \<Rightarrow> Inl NetworkFailure
      | Response status html \<Rightarrow>
          if 200 \<le> status \<and> status \<le> 299 then Inr (parsePageData html) else Inl (HttpError status))"

definition caught :: "fetch_error + LeaderboardRecord list \<Rightarrow> LeaderboardRecord list" where
  "caught res = (case res of Inl error \<Rightarrow> [] | Inr pageData \<Rightarrow> pageData)"

definition loadPageDataGET :: "world \<Rightarrow> nat \<Rightarrow> LeaderboardRecord list" where
  "loadPageDataGET w pageNo = caught (fetchPage w (getPageRequest (dom w) pageNo))"

text \<open>
  \<open>loadPageData\<close>: the records of a page and the requests sent for it. Both promises are
  made with \<open>resolve\<close> only, so the result is always a list.
\<close>

definition loadPageData :: "world \<Rightarrow> nat \<Rightarrow> LeaderboardRecord list \<times> request list" where
  "loadPageData w pageNo =
     (let getResult = loadPageDataGET w pageNo
      in if getResult \<noteq> [] then (getResult, [getPageRequest (dom w) pageNo])
         else (let requestConfig = buildFilteredPageRequest (dom w) pageNo
               in (caught (fetchPage w requestConfig), [getPageRequest (dom w) pageNo, requestConfig])))"

text \<open>The handler of the cancel control.\<close>

definition cancelClicked :: "loader \<Rightarrow> loader" where
  "cancelClicked s = s\<lparr>loadingAborted := True, isLoadingAllPages := False\<rparr>"

text \<open>The rows of the table body are parsed into \<open>allPagesData\<close>; without a table body the field keeps its value.\<close>

definition parseCurrentPage :: "loader \<Rightarrow> loader" where
  "parseCurrentPage s =
     (case tableBody s of
        None \<Rightarrow> s
      | Some rws \<Rightarrow> s\<lparr>allPagesData := parse_rows (tbody_rows rws)\<rparr>)"

text \<open>
  The loop over the pages 2 to \<open>totalPages\<close>. It returns \<open>True\<close> when it was left by the
  \<open>return\<close> of the cancel test. The cancel control can only be used while the loop waits,
  that is during the fetch of a page or the pause after it.
\<close>

function pageLoop :: "world \<Rightarrow> int \<Rightarrow> nat \<Rightarrow> loader \<Rightarrow> bool \<times> loader" where
  "pageLoop w totalPages pageNo s =
     (if int pageNo \<le> totalPages
      then (if loadingAborted s then (True, s)
            else (let (pageData, sent) = loadPageData w pageNo;
                      s1 = s\<lparr>requests := requests s @ sent\<rparr>;
                      s2 = (if pageData \<noteq> [] then s1\<lparr>allPagesData := allPagesData s1 @ pageData\<rparr> else s1);
                      s3 = (if cancelDuring w pageNo then cancelClicked s2 else s2)
                  in pageLoop w totalPages (Suc pageNo) s3))
      else (False, s))"
  by pat_completeness auto
termination
  by (relation "measure (\<lambda>(w, totalPages, pageNo, s). nat (totalPages + 1 - int pageNo))") auto

declare pageLoop.simps [simp del]

text \<open>
  \<open>appendAllDataToTable\<close>: the table body is emptied, which takes its rows out of it, and
  filled with a clone of the row of every record.
\<close>

definition detached :: "LeaderboardRecord \<Rightarrow> LeaderboardRecord" where
  "detached entry = entry\<lparr>element := cloneNode (element entry)\<rparr>"

definition appendAllDataToTable :: "loader \<Rightarrow> loader" where
  "appendAllDataToTable s =
     (case tableBody s of
        None \<Rightarrow> s
      | Some rws \<Rightarrow>
          s\<lparr>tableBody := Some (map (\<lambda>entry. cloneNode (element entry)) (allPagesData s)),
            allPagesData := map detached (allPagesData s)\<rparr>)"

definition hideOriginalPagination :: "world \<Rightarrow> loader \<Rightarrow> loader" where
  "hideOriginalPagination w s =
     (case querySelector (dom w) ''.pagination'' of
        None \<Rightarrow> s
      | Some pagination \<Rightarrow> s\<lparr>paginationHidden := True\<rparr>)"

text \<open>
  The \<open>try\<close> block of \<open>loadAllPages\<close>. None of its statements throws: every failure of a
  fetch is settled inside \<open>loadPageData\<close>. Its result is a sum so that \<open>loadAllPages\<close>
  shows the \<open>catch\<close> block, with the alert, as the branch of an exception.
\<close>

definition tryBlock :: "world \<Rightarrow> int \<Rightarrow> loader \<Rightarrow> unit + LeaderboardRecord list \<times> loader" where
  "tryBlock w totalPages s =
     (let s1 = parseCurrentPage s;
          (cancelled, s2) = pageLoop w totalPages 2 s1
      in if cancelled then Inr (allPagesData s2, s2)
         else (let s3 = hideOriginalPagination w (appendAllDataToTable s2)
               in Inr (allPagesData s3, s3)))"

definition finallyBlock :: "loader \<Rightarrow> loader" where
  "finallyBlock s = s\<lparr>isLoadingAllPages := False, loadingAborted := False\<rparr>"

definition loadAllPages :: "world \<Rightarrow> loader \<Rightarrow> LeaderboardRecord list \<times> loader" where
  "loadAllPages w s =
     (if isLoadingAllPages s then (allPagesData s, s)
      else (let s1 = s\<lparr>isLoadingAllPages := True, loadingAborted := False\<rparr>;
                totalPages = getTotalPages (dom w)
            in if totalPages \<le> 1
               then (let s2 = parseCurrentPage s1 in (allPagesData s2, s2))
               else (case tryBlock w totalPages s1 of
                       Inr (res, s2) \<Rightarrow> (res, finallyBlock s2)
                     | Inl error \<Rightarrow> ([], finallyBlock (s1\<lparr>alerts := alerts s1 @ [PageLoadError]\<rparr>)))))"

text \<open>A fetch that fails: a transport error or a status outside 200 to 299.\<close>

definition fetch_fails :: "world \<Rightarrow> request \<Rightarrow> bool" where
  "fetch_fails w req =
     (case respond w req of TransportError \<Rightarrow> True | Response status html \<Rightarrow> \<not> (200 \<le> status \<and> status \<le> 299))"

subsection \<open>Calls of \<open>loadAllPages\<close> among the events of the page\<close>

text \<open>
  \<open>loadAllPages\<close> is an \<open>async\<close> function: a call runs up to its first \<open>await\<close> and
  then gives way to the other events of the page; it continues when what it waits for is
  there. In every turn of its loop it waits twice, for \<open>loadPageData(page)\<close> and for the
  pause of 500 ms. A call that waits is kept with the value of its \<open>totalPages\<close>, the
  place where it waits and whether its progress indicator, which holds its cancel control,
  is still in the document. The fields of the loader are shared by all calls.
\<close>

datatype wait_point = PageFetch nat | Pause nat

record run =
  lastPage :: int
  waitsAt :: wait_point
  indicatorShown :: bool

record session =
  shared :: loader
  inFlight :: "run list"

text \<open>
  The events: a call of \<open>loadAllPages\<close>, a click on the cancel control of the waiting
  call with the given index, and the continuation of the waiting call with the given
  index.
\<close>

datatype event = CallLoadAllPages | ClickCancel nat | Continue nat

text \<open>
  A call from the test of its loop on, up to the next \<open>await\<close> or to its end: the call
  that still waits, if any, and the fields of the loader. The \<open>finally\<close> block runs at either end.
\<close>

definition loopTest :: "world \<Rightarrow> int \<Rightarrow> nat \<Rightarrow> bool \<Rightarrow> loader \<Rightarrow> run option \<times> loader" where
  "loopTest w n pageNo shown s =
     (if int pageNo \<le> n
      then (if loadingAborted s then (None, finallyBlock s)
            else (Some \<lparr>lastPage = n, waitsAt = PageFetch pageNo, indicatorShown = shown\<rparr>, s))
      else (None, finallyBlock (hideOriginalPagination w (appendAllDataToTable s))))"

text \<open>The start of a call, from the guard to the first \<open>await\<close>.\<close>

definition startCall :: "world \<Rightarrow> loader \<Rightarrow> run option \<times> loader" where
  "startCall w s =
     (if isLoadingAllPages s then (None, s)
      else (let s1 = s\<lparr>isLoadingAllPages := True, loadingAborted := False\<rparr>;
                n = getTotalPages (dom w)
            in if n \<le> 1 then (None, parseCurrentPage s1)
               else loopTest w n 2 True (parseCurrentPage s1)))"

text \<open>
  The continuation of a waiting call: after \<open>loadPageData\<close> the records of the page are
  added and the pause begins; after the pause the page number is increased and the test of
  the loop follows.
\<close>

definition continueRun :: "world \<Rightarrow> run \<Rightarrow> loader \<Rightarrow> run option \<times> loader" where
  "continueRun w r s =
     (case waitsAt r of
        PageFetch pageNo \<Rightarrow>
          (let (pageData, sent) = loadPageData w pageNo;
               s1 = s\<lparr>requests := requests s @ sent\<rparr>;
               s2 = (if pageData \<noteq> [] then s1\<lparr>allPagesData := allPagesData s1 @ pageData\<rparr> else s1)
           in (Some (r\<lparr>waitsAt := Pause pageNo\<rparr>), s2))
      | Pause pageNo \<Rightarrow> loopTest w (lastPage r) (Suc pageNo) (indicatorShown r) s)"

text \<open>
  One event. A click on a cancel control needs a waiting call whose indicator is shown: the
  handler sets the two flags and removes the indicator. An event that is not possible
  leaves everything as it is.
\<close>

fun step :: "world \<Rightarrow> session \<Rightarrow> event \<Rightarrow> session" where
  "step w t CallLoadAllPages =
     (case startCall w (shared t) of
        (None, s) \<Rightarrow> t\<lparr>shared := s\<rparr>
      | (Some r, s) \<Rightarrow> \<lparr>shared = s, inFlight = inFlight t @ [r]\<rparr>)"
| "step w t (ClickCancel i) =
     (if i < length (inFlight t) \<and> indicatorShown (inFlight t ! i)
      then \<lparr>shared = cancelClicked (shared t),
            inFlight = (inFlight t)[i := (inFlight t ! i)\<lparr>indicatorShown := False\<rparr>]\<rparr>
      else t)"
| "step w t (Continue i) =
     (if i < length (inFlight t)
      then (case continueRun w (inFlight t ! i) (shared t) of
              (None, s) \<Rightarrow> \<lparr>shared = s, inFlight = take i (inFlight t) @ drop (Suc i) (inFlight t)\<rparr>
            | (Some r, s) \<Rightarrow> \<lparr>shared = s, inFlight = (inFlight t)[i := r]\<rparr>)
      else t)"

definition run_events :: "world \<Rightarrow> event list \<Rightarrow> session \<Rightarrow> session" where
  "run_events w evs t = foldl (step w) t evs"

text \<open>At most one call waits, and the in-progress flag is set while one does.\<close>

definition one_at_most :: "session \<Rightarrow> bool" where
  "one_at_most t = (length (inFlight t) \<le> 1 \<and> (inFlight t = [] \<or> isLoadingAllPages (shared t)))"

fun is_cancel :: "event \<Rightarrow> bool" where
  "is_cancel (ClickCancel i) = True"
| "is_cancel e = False"

subsection \<open>Example runs\<close>

definition three_pages :: node where
  "three_pages =
     \<lparr>nodeText = ''1 2 3'', attributes = [],
      anchors = map page_link [''?page=1'', ''?page=2'', ''?page=3'']\<rparr>"

definition paged_document :: document where
  "paged_document = with_pagination three_pages empty_document"

text \<open>A server that answers every request for a page with one row of that page.\<close>

definition page_rows :: "request \<Rightarrow> row list" where
  "page_rows req =
     [ranked_row (value_or ''0'' (or_else (map_of (query req) ''page'') (map_of (body req) ''page''))) ''9:59'']"

definition good_server :: "request \<Rightarrow> fetch_outcome" where
  "good_server req = Response 200 (Some (page_rows req))"

text \<open>A server that fails on page 2: status 500 for the GET request, a transport error for the POST request.\<close>

definition failing_server :: "request \<Rightarrow> fetch_outcome" where
  "failing_server req =
     (if map_of (query req) ''page'' = Some ''2'' then Response 500 None
      else if map_of (body req) ''page'' = Some ''2'' then TransportError
      else good_server req)"

definition idle_loader :: loader where
  "idle_loader =
     \<lparr>isLoadingAllPages = False, loadingAborted = False, allPagesData = [],
      tableBody = Some [ranked_row ''1'' ''8:00''], alerts = [], requests = [],
      paginationHidden = False\<rparr>"

definition world_failing_page :: world where
  "world_failing_page = \<lparr>dom = paged_document, respond = failing_server, cancelDuring = (\<lambda>p. False)\<rparr>"


definition busy_loader :: loader where
  "busy_loader = idle_loader\<lparr>isLoadingAllPages := True, allPagesData := table_blank_times\<rparr>"

text \<open>A page with three pages of results, a server that answers, and a loader that has not been used.\<close>

definition good_world :: world where
  "good_world = \<lparr>dom = paged_document, respond = good_server, cancelDuring = (\<lambda>p. False)\<rparr>"

definition idle_session :: session where
  "idle_session = \<lparr>shared = idle_loader, inFlight = []\<rparr>"

text \<open>
  The load control is used, the cancel control is used while the call waits for page 2, and
  the load control, which the cancel handler has enabled again, is used once more before
  that page is there.
\<close>

definition restart_after_cancel :: "event list" where
  "restart_after_cancel = [CallLoadAllPages, ClickCancel 0, CallLoadAllPages]"

definition requested_page :: "request \<Rightarrow> string option" where
  "requested_page req = or_else (map_of (query req) ''page'') (map_of (body req) ''page'')"

text \<open>Both calls are continued, in turn, until neither waits any more.\<close>

definition both_to_the_end :: "event list" where
  "both_to_the_end =
     [Continue 0, Continue 0, Continue 1, Continue 1, Continue 0, Continue 0, Continue 0, Continue 0]"

text \<open>One call that is continued to its end with no other event.\<close>

definition one_run :: "event list" where
  "one_run = [CallLoadAllPages, Continue 0, Continue 0, Continue 0, Continue 0]"

section \<open>Facts about the record extractor\<close>

lemma is_digit_not_space: "is_digit c \<Longrightarrow> \<not> is_space c"
  by (auto simp: is_digit_def is_space_def)

lemma is_digit_radix: "is_digit c \<Longrightarrow> radix_digit c = Some (digit_val c) \<and> digit_val c < 10"
  by (auto simp: is_digit_def radix_digit_def digit_val_def)

lemma is_digit_cases: "is_digit c \<Longrightarrow> c \<noteq> CHR ''-'' \<and> c \<noteq> CHR ''+'' \<and> c \<noteq> CHR ''x'' \<and> c \<noteq> CHR ''X'' \<and> c \<noteq> CHR '':'' \<and> c \<noteq> CHR ''.'' \<and> c \<noteq> CHR '',''"
  by (auto simp: is_digit_def)

lemma radix_value_digits:
  "list_all is_digit ds \<Longrightarrow> foldl (\<lambda>a c. 10 * a + (case radix_digit c of Some d \<Rightarrow> d | None \<Rightarrow> 0)) a ds
     = foldl (\<lambda>a c. 10 * a + digit_val c) a ds"
  by (induction ds arbitrary: a) (auto simp: is_digit_radix)

lemma takeWhile_all: "list_all P xs \<Longrightarrow> takeWhile P xs = xs"
  by (induction xs) auto

lemma parseInt_digits:
  assumes "ds \<noteq> []" "list_all is_digit ds"
  shows "parseInt ds = Some (int (digits_value ds))"
proof -
  obtain c cs where ds: "ds = c # cs" using assms(1) by (cases ds) auto
  have c: "is_digit c" and cs: "list_all is_digit cs" using assms(2) ds by auto
  have 1: "dropWhile is_space ds = ds" using c ds by (simp add: is_digit_not_space)
  have 2: "\<not> startsWith ds ''-''" "\<not> startsWith ds ''+''"
    using c ds is_digit_cases[OF c] by (auto simp: startsWith_def)
  have 3: "\<not> startsWith ds ''0x''" "\<not> startsWith ds ''0X''"
  proof -
    show "\<not> startsWith ds ''0x''"
    proof (cases cs)
      case Nil then show ?thesis using ds by (simp add: startsWith_def)
    next
      case (Cons d rest)
      then have "is_digit d" using cs by simp
      then show ?thesis using ds Cons is_digit_cases[of d] by (auto simp: startsWith_def)
    qed
    show "\<not> startsWith ds ''0X''"
    proof (cases cs)
      case Nil then show ?thesis using ds by (simp add: startsWith_def)
    next
      case (Cons d rest)
      then have "is_digit d" using cs by simp
      then show ?thesis using ds Cons is_digit_cases[of d] by (auto simp: startsWith_def)
    qed
  qed
  have "list_all (is_radix_digit 10) ds"
    using assms(2) by (induction ds) (auto simp: is_radix_digit_def is_digit_radix)
  then have 4: "takeWhile (is_radix_digit 10) ds = ds" by (rule takeWhile_all)
  have 5: "radix_value 10 ds = digits_value ds"
    unfolding radix_value_def digits_value_def using radix_value_digits[OF assms(2)] by simp
  show ?thesis
    unfolding parseInt_def Let_def by (simp add: 1 2 3 4 5 assms(1))
qed

lemma takeWhile_digits_append:
  "list_all is_digit m \<Longrightarrow> rest = [] \<or> \<not> is_digit (hd rest) \<Longrightarrow> takeWhile is_digit (m @ rest) = m"
  by (induction m) (auto simp: takeWhile_eq_Nil_iff neq_Nil_conv)

lemma dropWhile_digits_append:
  "list_all is_digit m \<Longrightarrow> rest = [] \<or> \<not> is_digit (hd rest) \<Longrightarrow> dropWhile is_digit (m @ rest) = rest"
  by (induction m) (auto simp: dropWhile_eq_self_iff neq_Nil_conv)

lemma time_at_mmss:
  assumes "m \<noteq> []" "list_all is_digit m" "s \<noteq> []" "list_all is_digit s"
    and "rest = [] \<or> \<not> is_digit (hd rest)"
  shows "time_at (m @ '':'' @ s @ rest) = Some (m, s)"
proof -
  have a: "takeWhile is_digit (m @ '':'' @ s @ rest) = m"
    using assms(2) by (intro takeWhile_digits_append) (auto simp: is_digit_def)
  have b: "dropWhile is_digit (m @ '':'' @ s @ rest) = '':'' @ s @ rest"
    using assms(2) by (intro dropWhile_digits_append) (auto simp: is_digit_def)
  have c: "takeWhile is_digit (s @ rest) = s"
    using assms(4,5) by (rule takeWhile_digits_append)
  show ?thesis unfolding time_at_def Let_def a b using c assms(1,3) by (simp add: startsWith_def)
qed

lemma search_hit: "s \<noteq> [] \<Longrightarrow> m s = Some r \<Longrightarrow> search m s = Some r"
  by (cases s) auto

lemma parseTimeToSeconds_mmss:
  assumes "m \<noteq> []" "list_all is_digit m" "s \<noteq> []" "list_all is_digit s"
    and "rest = [] \<or> \<not> is_digit (hd rest)"
  shows "parseTimeToSeconds (m @ '':'' @ s @ rest) = int (digits_value m) * 60 + int (digits_value s)"
proof -
  have "search time_at (m @ '':'' @ s @ rest) = Some (m, s)"
    using time_at_mmss[OF assms] assms(1) by (intro search_hit) auto
  then show ?thesis
    unfolding parseTimeToSeconds_def
    by (simp add: minutes_seconds_def parseInt_digits[OF assms(1,2)] parseInt_digits[OF assms(3,4)])
qed

lemma parseTimeToSeconds_empty: "parseTimeToSeconds [] = 0"
  by (simp add: parseTimeToSeconds_def time_at_def startsWith_def)

lemma timeOf_consistent: "snd (timeOf cs) = parseTimeToSeconds (fst (timeOf cs))"
  by (simp add: timeOf_def parseTimeToSeconds_empty split: option.splits)

lemma search_skip:
  assumes "\<And>c t. \<not> is_digit c \<Longrightarrow> m (c # t) = None"
    and "list_all (\<lambda>c. \<not> is_digit c) pre" and "s \<noteq> []"
  shows "search m (pre @ s) = search m s"
  using assms(2) by (induction pre) (auto simp: assms(1))

lemma digits_at_no_digit: "\<not> is_digit c \<Longrightarrow> digits_at (c # t) = None"
  by (simp add: digits_at_def)

lemma number_unit_digits_no_digit: "\<not> is_digit c \<Longrightarrow> number_unit_at digits_at u (c # t) = None"
  by (simp add: number_unit_at_def digits_at_no_digit)

lemma number_unit_decimal_no_digit: "\<not> is_digit c \<Longrightarrow> number_unit_at decimal_at u (c # t) = None"
  by (simp add: number_unit_at_def decimal_at_def digits_at_no_digit)

lemma to_lower_W: "to_lower (CHR ''W'') = CHR ''w''" "to_lower (CHR ''w'') = CHR ''w''"
  by code_simp+

lemma speed_phrase:
  "search (number_unit_at decimal_at
      (\<lambda>u. startsWith_ci u ''km/h'' \<or> startsWith_ci u ''mph'' \<or> startsWith_ci u ''kph''))
     (''1,234.5 km/h'' @ post) = Some ''234.5''"
  by (simp add: number_unit_at_def decimal_at_def digits_at_def opt_char_at_def startsWith_def
      startsWith_ci_def is_digit_def is_space_def toLowerCase_def to_lower_def is_upper_def)

lemma heart_phrase:
  "search (number_unit_at digits_at (\<lambda>u. startsWith_ci u ''bpm'' \<or> startsWith u heart))
     (''185 bpm'' @ post) = Some ''185''"
  by (simp add: number_unit_at_def decimal_at_def digits_at_def opt_char_at_def startsWith_def
      startsWith_ci_def is_digit_def is_space_def toLowerCase_def to_lower_def is_upper_def)

lemma power_phrase:
  "search (number_unit_at digits_at (\<lambda>u. startsWith_ci u ''w'' \<or> startsWith_ci u ''watts''))
     (''250W'' @ post) = Some ''250''"
  by (simp add: number_unit_at_def digits_at_def startsWith_def startsWith_ci_def is_digit_def
      is_space_def toLowerCase_def to_lower_W)

lemma speedMatch_phrase:
  assumes "list_all (\<lambda>c. \<not> is_digit c) pre"
  shows "speedMatch (pre @ ''1,234.5 km/h'' @ post) = Some ''234.5''"
proof -
  have a: "search (number_unit_at decimal_at
      (\<lambda>u. startsWith_ci u ''km/h'' \<or> startsWith_ci u ''mph'' \<or> startsWith_ci u ''kph'')) (pre @ ''1,234.5 km/h'' @ post) =
           search (number_unit_at decimal_at
      (\<lambda>u. startsWith_ci u ''km/h'' \<or> startsWith_ci u ''mph'' \<or> startsWith_ci u ''kph'')) (''1,234.5 km/h'' @ post)"
    by (rule search_skip) (simp_all add: number_unit_decimal_no_digit assms)
  show ?thesis unfolding speedMatch_def a speed_phrase by (simp add: or_else_def)
qed

lemma heartRateMatch_phrase:
  assumes "list_all (\<lambda>c. \<not> is_digit c) pre"
  shows "heartRateMatch (pre @ ''185 bpm'' @ post) = Some ''185''"
proof -
  have a: "search (number_unit_at digits_at (\<lambda>u. startsWith_ci u ''bpm'' \<or> startsWith u heart)) (pre @ ''185 bpm'' @ post) =
           search (number_unit_at digits_at (\<lambda>u. startsWith_ci u ''bpm'' \<or> startsWith u heart)) (''185 bpm'' @ post)"
    by (rule search_skip) (simp_all add: number_unit_digits_no_digit assms)
  show ?thesis unfolding heartRateMatch_def a heart_phrase by (simp add: or_else_def)
qed

lemma powerMatch_phrase:
  assumes "list_all (\<lambda>c. \<not> is_digit c) pre"
  shows "powerMatch (pre @ ''250W'' @ post) = Some ''250''"
proof -
  have a: "search (number_unit_at digits_at (\<lambda>u. startsWith_ci u ''w'' \<or> startsWith_ci u ''watts'')) (pre @ ''250W'' @ post) =
           search (number_unit_at digits_at (\<lambda>u. startsWith_ci u ''w'' \<or> startsWith_ci u ''watts'')) (''250W'' @ post)"
    by (rule search_skip) (simp_all add: number_unit_digits_no_digit assms)
  show ?thesis unfolding powerMatch_def a power_phrase by (simp add: or_else_def)
qed

lemma first_some_at:
  "n < length xs \<Longrightarrow> f (xs ! n) = Some y \<Longrightarrow> (\<forall>j<n. f (xs ! j) = None) \<Longrightarrow> first_some f xs = Some y"
proof (induction xs arbitrary: n)
  case Nil
  then show ?case by simp
next
  case (Cons x xs)
  show ?case
  proof (cases n)
    case 0
    then show ?thesis using Cons.prems by simp
  next
    case (Suc k)
    have "f x = None" using Cons.prems(3) Suc by auto
    moreover have "first_some f xs = Some y"
      using Cons.prems Suc by (intro Cons.IH[of k]) auto
    ultimately show ?thesis by simp
  qed
qed

lemma window_first:
  assumes "2 \<le> k" "k < min (length cs) 6" "f (cs ! k) = Some y"
    and "\<forall>j. 2 \<le> j \<and> j < k \<longrightarrow> f (cs ! j) = None"
  shows "first_some f (take 4 (drop 2 cs)) = Some y"
proof (rule first_some_at[where n = "k - 2"])
  show "k - 2 < length (take 4 (drop 2 cs))" using assms(1,2) by auto
  have "2 + (k - 2) = k" using assms(1) by simp
  then show "f (take 4 (drop 2 cs) ! (k - 2)) = Some y" using assms(1,2,3) by simp
  show "\<forall>j<k - 2. f (take 4 (drop 2 cs) ! j) = None"
  proof (intro allI impI)
    fix j assume "j < k - 2"
    then have "2 \<le> j + 2 \<and> j + 2 < k" and "j < 4" using assms(2) by auto
    then show "f (take 4 (drop 2 cs) ! j) = None"
      using assms(2,4) by (auto simp: add.commute)
  qed
qed

lemma time_at_no_digit: "\<not> is_digit c \<Longrightarrow> time_at (c # t) = None"
  by (simp add: time_at_def)

lemma parseTimeToSeconds_pre_mmss:
  assumes "list_all (\<lambda>c. \<not> is_digit c) pre"
    and "m \<noteq> []" "list_all is_digit m" "s \<noteq> []" "list_all is_digit s"
    and "rest = [] \<or> \<not> is_digit (hd rest)"
  shows "parseTimeToSeconds (pre @ m @ '':'' @ s @ rest) = int (digits_value m) * 60 + int (digits_value s)"
proof -
  have "search time_at (pre @ (m @ '':'' @ s @ rest)) = search time_at (m @ '':'' @ s @ rest)"
    using assms(1,2) by (intro search_skip time_at_no_digit) auto
  then have "parseTimeToSeconds (pre @ m @ '':'' @ s @ rest) = parseTimeToSeconds (m @ '':'' @ s @ rest)"
    by (simp add: parseTimeToSeconds_def)
  then show ?thesis using parseTimeToSeconds_mmss[OF assms(2-6)] by simp
qed

lemma parseTableRow_Some:
  "3 \<le> length (tds r) \<Longrightarrow> parseTableRow r index =
     Some \<lparr> rank = rankOf (tds r ! 0) index, name = nameOf (tds r), date = dateOf (tds r ! 2),
            speed = speedOf (tds r), heartRate = heartRateOf (tds r),
            averageClimbingSpeed = averageClimbingSpeedOf (tds r), power' = powerOf (tds r),
            time = fst (timeOf (tds r)), timeInSeconds = snd (timeOf (tds r)), element = r \<rparr>"
  by (simp add: parseTableRow_def Let_def)

lemma parseInt_empty: "parseInt [] = None"
  by (simp add: parseInt_def startsWith_def)

lemma rankOf_chain:
  "rankOf c index =
     (if hasAvatar c then 1
      else case parseInt (cellText c) of
             Some n \<Rightarrow> if n = 0 then int index + 1 else n
           | None \<Rightarrow> int index + 1)"
  by (auto simp: rankOf_def Let_def parseInt_empty split: option.splits)

text \<open>
  C5 (amended). For every row with at least three cells, \<open>parseTableRow\<close> returns a
  record whose \<open>timeInSeconds\<close> is \<open>parseTimeToSeconds\<close> of its \<open>time\<close>: it is 0
  when \<open>time\<close> is empty, and when \<open>time\<close> is \<open>m:s\<close> (after text without digits, and
  followed by anything that does not start with a digit) it is \<open>m * 60 + s\<close>. So a text
  \<open>MM:SS\<close> is decomposed into seconds, and of a text \<open>H:MM:SS\<close> only the leading pair
  \<open>H:MM\<close> is read, as minutes and seconds.
\<close>

theorem parseTableRow_timeInSeconds:
  assumes "3 \<le> length (tds r)"
  shows "\<exists>rec. parseTableRow r index = Some rec
      \<and> timeInSeconds rec = parseTimeToSeconds (time rec)
      \<and> (time rec = [] \<longrightarrow> timeInSeconds rec = 0)
      \<and> (\<forall>pre m s rest.
            time rec = pre @ m @ '':'' @ s @ rest \<and> list_all (\<lambda>c. \<not> is_digit c) pre
            \<and> m \<noteq> [] \<and> list_all is_digit m \<and> s \<noteq> [] \<and> list_all is_digit s
            \<and> (rest = [] \<or> \<not> is_digit (hd rest))
            \<longrightarrow> timeInSeconds rec = int (digits_value m) * 60 + int (digits_value s))"
proof -
  let ?rec = "\<lparr> rank = rankOf (tds r ! 0) index, name = nameOf (tds r), date = dateOf (tds r ! 2),
            speed = speedOf (tds r), heartRate = heartRateOf (tds r),
            averageClimbingSpeed = averageClimbingSpeedOf (tds r), power' = powerOf (tds r),
            time = fst (timeOf (tds r)), timeInSeconds = snd (timeOf (tds r)), element = r \<rparr>"
  have p: "parseTableRow r index = Some ?rec" by (rule parseTableRow_Some[OF assms])
  have c: "timeInSeconds ?rec = parseTimeToSeconds (time ?rec)"
    by (simp add: timeOf_consistent)
  have e: "time ?rec = [] \<longrightarrow> timeInSeconds ?rec = 0"
    using c by (simp add: parseTimeToSeconds_empty)
  have d: "\<forall>pre m s rest.
            time ?rec = pre @ m @ '':'' @ s @ rest \<and> list_all (\<lambda>c. \<not> is_digit c) pre
            \<and> m \<noteq> [] \<and> list_all is_digit m \<and> s \<noteq> [] \<and> list_all is_digit s
            \<and> (rest = [] \<or> \<not> is_digit (hd rest))
            \<longrightarrow> timeInSeconds ?rec = int (digits_value m) * 60 + int (digits_value s)"
    using c parseTimeToSeconds_pre_mmss by metis
  show ?thesis using p c e d by blast
qed

theorem parseTableRow_timeInSeconds_witness:
  "3 \<le> length (tds row_mmss) \<and>
   (\<exists>rec. parseTableRow row_mmss 3 = Some rec \<and> time rec = ''12:34'' \<and> timeInSeconds rec = 754)"
proof -
  have len: "3 \<le> length (tds row_mmss)" by code_simp
  obtain rec where p: "parseTableRow row_mmss 3 = Some rec"
    and d: "\<forall>pre m s rest.
            time rec = pre @ m @ '':'' @ s @ rest \<and> list_all (\<lambda>c. \<not> is_digit c) pre
            \<and> m \<noteq> [] \<and> list_all is_digit m \<and> s \<noteq> [] \<and> list_all is_digit s
            \<and> (rest = [] \<or> \<not> is_digit (hd rest))
            \<longrightarrow> timeInSeconds rec = int (digits_value m) * 60 + int (digits_value s)"
    using parseTableRow_timeInSeconds[OF len, of 3] by blast
  have "map_option time (parseTableRow row_mmss 3) = Some ''12:34''" by code_simp
  then have t: "time rec = ''12:34''" using p by simp
  have "time rec = [] @ ''12'' @ '':'' @ ''34'' @ [] \<and> list_all (\<lambda>c. \<not> is_digit c) []
        \<and> ''12'' \<noteq> [] \<and> list_all is_digit ''12'' \<and> ''34'' \<noteq> [] \<and> list_all is_digit ''34''
        \<and> ([] = [] \<or> \<not> is_digit (hd []))"
    using t by (simp add: is_digit_def)
  then have "timeInSeconds rec = int (digits_value ''12'') * 60 + int (digits_value ''34'')"
    using d by blast
  moreover have "digits_value ''12'' = 12" "digits_value ''34'' = 34" by code_simp+
  ultimately have "timeInSeconds rec = 754" by simp
  then show ?thesis using len p t by blast
qed

text \<open>A time of an hour or more: the cell \<open>1:02:03\<close> is read as 1 minute and 2 seconds, 62 seconds and not 3723.\<close>

theorem parseTableRow_timeInSeconds_counterexample:
  "parseTableRow row_hms 3 =
     Some \<lparr>rank = 4, name = ''Jane Doe'', date = ''2024'', speed = 0, heartRate = None,
           averageClimbingSpeed = 0, power' = None, time = ''1:02:03'', timeInSeconds = 62,
           element = row_hms\<rparr>"
  by code_simp

text \<open>
  C6 (amended). For every row with at least three cells the rank is: 1 when the rank cell
  holds an avatar-like marker, whatever its text; else the integer \<open>parseInt\<close> reads from
  the trimmed text when there is one and it is not 0; else \<open>index + 1\<close>. Without a marker,
  an empty text gives \<open>index + 1\<close> and a text that is a run of digits of non-zero value
  gives that value. The rank is at least 1 unless that integer is negative.
\<close>

theorem parseTableRow_rank:
  assumes "3 \<le> length (tds r)"
  shows "\<exists>rec. parseTableRow r index = Some rec
      \<and> rank rec =
          (if hasAvatar (tds r ! 0) then 1
           else case parseInt (cellText (tds r ! 0)) of
                  Some n \<Rightarrow> if n = 0 then int index + 1 else n
                | None \<Rightarrow> int index + 1)
      \<and> (\<not> hasAvatar (tds r ! 0) \<and> cellText (tds r ! 0) = [] \<longrightarrow> rank rec = int index + 1)
      \<and> (\<not> hasAvatar (tds r ! 0) \<and> cellText (tds r ! 0) \<noteq> [] \<and> list_all is_digit (cellText (tds r ! 0))
           \<and> digits_value (cellText (tds r ! 0)) \<noteq> 0
           \<longrightarrow> rank rec = int (digits_value (cellText (tds r ! 0))))
      \<and> (1 \<le> rank rec \<or>
           (\<not> hasAvatar (tds r ! 0) \<and> (\<exists>n. parseInt (cellText (tds r ! 0)) = Some n \<and> n < 0)))"
proof -
  let ?rec = "\<lparr> rank = rankOf (tds r ! 0) index, name = nameOf (tds r), date = dateOf (tds r ! 2),
            speed = speedOf (tds r), heartRate = heartRateOf (tds r),
            averageClimbingSpeed = averageClimbingSpeedOf (tds r), power' = powerOf (tds r),
            time = fst (timeOf (tds r)), timeInSeconds = snd (timeOf (tds r)), element = r \<rparr>"
  let ?c = "tds r ! 0"
  have p: "parseTableRow r index = Some ?rec" by (rule parseTableRow_Some[OF assms])
  have a: "rank ?rec =
          (if hasAvatar ?c then 1
           else case parseInt (cellText ?c) of
                  Some n \<Rightarrow> if n = 0 then int index + 1 else n
                | None \<Rightarrow> int index + 1)"
    by (simp add: rankOf_chain)
  have b: "\<not> hasAvatar ?c \<and> cellText ?c = [] \<longrightarrow> rank ?rec = int index + 1"
    using a by (simp add: parseInt_empty)
  have c: "\<not> hasAvatar ?c \<and> cellText ?c \<noteq> [] \<and> list_all is_digit (cellText ?c)
           \<and> digits_value (cellText ?c) \<noteq> 0
           \<longrightarrow> rank ?rec = int (digits_value (cellText ?c))"
    using a by (auto simp: parseInt_digits)
  have d: "1 \<le> rank ?rec \<or> (\<not> hasAvatar ?c \<and> (\<exists>n. parseInt (cellText ?c) = Some n \<and> n < 0))"
    using a by (auto split: option.splits)
  show ?thesis using p a b c d by blast
qed

theorem parseTableRow_rank_witness:
  "3 \<le> length (tds row_mmss) \<and> (\<exists>rec. parseTableRow row_mmss 3 = Some rec \<and> rank rec = 4)"
proof -
  have len: "3 \<le> length (tds row_mmss)" by code_simp
  obtain rec where p: "parseTableRow row_mmss 3 = Some rec"
    and c: "\<not> hasAvatar (tds row_mmss ! 0) \<and> cellText (tds row_mmss ! 0) \<noteq> []
           \<and> list_all is_digit (cellText (tds row_mmss ! 0))
           \<and> digits_value (cellText (tds row_mmss ! 0)) \<noteq> 0
           \<longrightarrow> rank rec = int (digits_value (cellText (tds row_mmss ! 0)))"
    using parseTableRow_rank[OF len, of 3] by blast
  have "\<not> hasAvatar (tds row_mmss ! 0)" "cellText (tds row_mmss ! 0) = ''4''" by code_simp+
  moreover have "list_all is_digit ''4''" "digits_value ''4'' = 4" by code_simp+
  ultimately have "rank rec = 4" using c by simp
  then show ?thesis using len p by blast
qed

text \<open>A rank cell with the text \<open>5\<close> and an avatar image gets rank 1, not 5; a rank cell with the text \<open>-3\<close> gets rank \<open>-3\<close>, which is below 1.\<close>

theorem parseTableRow_rank_counterexample:
  "parseTableRow row_avatar_text 4 =
     Some \<lparr>rank = 1, name = ''Jane Doe'', date = ''2024'', speed = 0, heartRate = None,
           averageClimbingSpeed = 0, power' = None, time = ''12:34'', timeInSeconds = 754,
           element = row_avatar_text\<rparr> \<and>
   cellText (tds row_avatar_text ! 0) = ''5'' \<and>
   parseTableRow row_negative 4 =
     Some \<lparr>rank = - 3, name = ''Jane Doe'', date = ''2024'', speed = 0, heartRate = None,
           averageClimbingSpeed = 0, power' = None, time = ''12:34'', timeInSeconds = 754,
           element = row_negative\<rparr>"
  by code_simp

lemma parseFloat_2345: "parseFloat ''234.5'' = Some (469 / 2)"
  by code_simp

lemma parseInt_185_250: "parseInt ''185'' = Some 185" "parseInt ''250'' = Some 250"
  by code_simp+

text \<open>
  C7 (amended). For every row with at least three cells, take a cell of the window the
  metric loops scan (index 2 up to 5) such that no earlier cell of the window matches the
  metric's patterns, and whose trimmed text holds the phrase after text without digits.
  Then \<open>1,234.5 km/h\<close> yields speed 234.5 (the speed pattern has no thousands separator,
  so the match starts after the comma), \<open>185 bpm\<close> yields heartRate 185 and \<open>250W\<close>
  yields power 250.
\<close>

theorem parseTableRow_metrics:
  assumes "3 \<le> length (tds r)"
  shows "\<exists>rec. parseTableRow r index = Some rec
      \<and> (\<forall>k pre post.
            2 \<le> k \<and> k < min (length (tds r)) 6
            \<and> (\<forall>j. 2 \<le> j \<and> j < k \<longrightarrow> speedMatch (cellText (tds r ! j)) = None)
            \<and> cellText (tds r ! k) = pre @ ''1,234.5 km/h'' @ post
            \<and> list_all (\<lambda>c. \<not> is_digit c) pre
            \<longrightarrow> speed rec = 469 / 2)
      \<and> (\<forall>k pre post.
            2 \<le> k \<and> k < min (length (tds r)) 6
            \<and> (\<forall>j. 2 \<le> j \<and> j < k \<longrightarrow> heartRateMatch (cellText (tds r ! j)) = None)
            \<and> cellText (tds r ! k) = pre @ ''185 bpm'' @ post
            \<and> list_all (\<lambda>c. \<not> is_digit c) pre
            \<longrightarrow> heartRate rec = Some 185)
      \<and> (\<forall>k pre post.
            2 \<le> k \<and> k < min (length (tds r)) 6
            \<and> (\<forall>j. 2 \<le> j \<and> j < k \<longrightarrow> powerMatch (cellText (tds r ! j)) = None)
            \<and> cellText (tds r ! k) = pre @ ''250W'' @ post
            \<and> list_all (\<lambda>c. \<not> is_digit c) pre
            \<longrightarrow> power' rec = Some 250)"
proof -
  let ?cs = "tds r"
  let ?rec = "\<lparr> rank = rankOf (?cs ! 0) index, name = nameOf ?cs, date = dateOf (?cs ! 2),
            speed = speedOf ?cs, heartRate = heartRateOf ?cs,
            averageClimbingSpeed = averageClimbingSpeedOf ?cs, power' = powerOf ?cs,
            time = fst (timeOf ?cs), timeInSeconds = snd (timeOf ?cs), element = r \<rparr>"
  have p: "parseTableRow r index = Some ?rec" by (rule parseTableRow_Some[OF assms])
  have s: "speed ?rec = 469 / 2"
    if "2 \<le> k \<and> k < min (length ?cs) 6
        \<and> (\<forall>j. 2 \<le> j \<and> j < k \<longrightarrow> speedMatch (cellText (?cs ! j)) = None)
        \<and> cellText (?cs ! k) = pre @ ''1,234.5 km/h'' @ post
        \<and> list_all (\<lambda>c. \<not> is_digit c) pre" for k pre post
  proof -
    have "speedMatch (cellText (?cs ! k)) = Some ''234.5''"
      using that speedMatch_phrase by simp
    then have "first_some (\<lambda>c. speedMatch (cellText c)) (take 4 (drop 2 ?cs)) = Some ''234.5''"
      using that by (intro window_first[where k = k]) auto
    then show ?thesis by (simp add: speedOf_def parseFloat_2345 value_or_def)
  qed
  have h: "heartRate ?rec = Some 185"
    if "2 \<le> k \<and> k < min (length ?cs) 6
        \<and> (\<forall>j. 2 \<le> j \<and> j < k \<longrightarrow> heartRateMatch (cellText (?cs ! j)) = None)
        \<and> cellText (?cs ! k) = pre @ ''185 bpm'' @ post
        \<and> list_all (\<lambda>c. \<not> is_digit c) pre" for k pre post
  proof -
    have "heartRateMatch (cellText (?cs ! k)) = Some ''185''"
      using that heartRateMatch_phrase by simp
    then have "first_some (\<lambda>c. heartRateMatch (cellText c)) (take 4 (drop 2 ?cs)) = Some ''185''"
      using that by (intro window_first[where k = k]) auto
    then show ?thesis by (simp add: heartRateOf_def parseInt_185_250 value_or_def)
  qed
  have w: "power' ?rec = Some 250"
    if "2 \<le> k \<and> k < min (length ?cs) 6
        \<and> (\<forall>j. 2 \<le> j \<and> j < k \<longrightarrow> powerMatch (cellText (?cs ! j)) = None)
        \<and> cellText (?cs ! k) = pre @ ''250W'' @ post
        \<and> list_all (\<lambda>c. \<not> is_digit c) pre" for k pre post
  proof -
    have "powerMatch (cellText (?cs ! k)) = Some ''250''"
      using that powerMatch_phrase by simp
    then have "first_some (\<lambda>c. powerMatch (cellText c)) (take 4 (drop 2 ?cs)) = Some ''250''"
      using that by (intro window_first[where k = k]) auto
    then show ?thesis by (simp add: powerOf_def parseInt_185_250 value_or_def)
  qed
  show ?thesis
    apply (rule exI[of _ ?rec])
    apply (intro conjI allI impI)
       apply (rule p)
      apply (erule s)
     apply (erule h)
    apply (erule w)
    done
qed

theorem parseTableRow_metrics_witness:
  "3 \<le> length (tds row_metrics) \<and>
   (\<exists>rec. parseTableRow row_metrics 1 = Some rec \<and> power' rec = Some 250)"
proof -
  have len: "3 \<le> length (tds row_metrics)" by code_simp
  obtain rec where p: "parseTableRow row_metrics 1 = Some rec"
    and w: "\<forall>k pre post.
            2 \<le> k \<and> k < min (length (tds row_metrics)) 6
            \<and> (\<forall>j. 2 \<le> j \<and> j < k \<longrightarrow> powerMatch (cellText (tds row_metrics ! j)) = None)
            \<and> cellText (tds row_metrics ! k) = pre @ ''250W'' @ post
            \<and> list_all (\<lambda>c. \<not> is_digit c) pre
            \<longrightarrow> power' rec = Some 250"
    using parseTableRow_metrics[OF len, of 1] by blast
  have l: "length (tds row_metrics) = 7" by code_simp
  have n: "powerMatch (cellText (tds row_metrics ! 2)) = None"
    "powerMatch (cellText (tds row_metrics ! 3)) = None"
    "powerMatch (cellText (tds row_metrics ! 4)) = None" by code_simp+
  have e: "\<forall>j. 2 \<le> j \<and> j < 5 \<longrightarrow> powerMatch (cellText (tds row_metrics ! j)) = None"
  proof (intro allI impI)
    fix j :: nat assume "2 \<le> j \<and> j < 5"
    then have "j = 2 \<or> j = 3 \<or> j = 4" by arith
    then show "powerMatch (cellText (tds row_metrics ! j)) = None" using n by auto
  qed
  have t: "cellText (tds row_metrics ! 5) = [] @ ''250W'' @ []" by code_simp
  have "2 \<le> (5::nat) \<and> 5 < min (length (tds row_metrics)) 6
            \<and> (\<forall>j. 2 \<le> j \<and> j < 5 \<longrightarrow> powerMatch (cellText (tds row_metrics ! j)) = None)
            \<and> cellText (tds row_metrics ! 5) = [] @ ''250W'' @ []
            \<and> list_all (\<lambda>c. \<not> is_digit c) []"
    using e t l by simp
  then have "power' rec = Some 250" using w by blast
  then show ?thesis using len p by blast
qed

text \<open>The cell \<open>1,234.5 km/h\<close> gives the speed 234.5, not 1234.5.\<close>

theorem parseTableRow_metrics_counterexample:
  "parseTableRow row_metrics 1 =
     Some \<lparr>rank = 2, name = ''Jane Doe'', date = ''2024'', speed = 469 / 2, heartRate = Some 185,
           averageClimbingSpeed = 0, power' = Some 250, time = ''12:34'', timeInSeconds = 754,
           element = row_metrics\<rparr>"
  by code_simp

section \<open>Facts about the pagination\<close>

lemma Max_insert_insert:
  fixes a b :: int
  assumes "finite S"
  shows "Max (insert a (insert b S)) = Max (insert (if a < b then b else a) S)"
proof (cases "S = {}")
  case True
  then show ?thesis by auto
next
  case False
  then show ?thesis using assms by (auto simp: max_def)
qed

lemma scan_links_Max: "scan_links ls m = Max (insert m (set (List.map_filter link_page ls)))"
proof (induction ls arbitrary: m)
  case Nil
  then show ?case by (simp add: scan_links_def List.map_filter_simps)
next
  case (Cons l ls)
  show ?case
  proof (cases "link_page l")
    case None
    then have "scan_links (l # ls) m = scan_links ls m" by (simp add: scan_links_def)
    then show ?thesis using Cons.IH[of m] None by (simp add: List.map_filter_simps)
  next
    case (Some n)
    then have "scan_links (l # ls) m = scan_links ls (if m < n then n else m)"
      by (simp add: scan_links_def)
    also have "\<dots> = Max (insert (if m < n then n else m) (set (List.map_filter link_page ls)))"
      by (rule Cons.IH)
    also have "\<dots> = Max (insert m (insert n (set (List.map_filter link_page ls))))"
      by (rule Max_insert_insert[symmetric]) simp
    finally show ?thesis using Some by (simp add: List.map_filter_simps)
  qed
qed

lemma scan_text_fold:
  "fold (\<lambda>numStr m. let num = value_or 0 (parseInt numStr)
                      in if num > m \<and> num < 1000 then num else m) rs m
   = Max (insert m {n \<in> set (map (\<lambda>numStr. value_or 0 (parseInt numStr)) rs). n < 1000})"
proof (induction rs arbitrary: m)
  case Nil
  then show ?case by simp
next
  case (Cons r rs)
  let ?f = "\<lambda>numStr m. let num = value_or 0 (parseInt numStr)
                      in if num > m \<and> num < (1000::int) then num else m"
  let ?n = "value_or 0 (parseInt r)"
  let ?S = "{n \<in> set (map (\<lambda>numStr. value_or 0 (parseInt numStr)) rs). n < 1000}"
  show ?case
  proof (cases "?n < 1000")
    case True
    have e: "{n \<in> set (map (\<lambda>numStr. value_or 0 (parseInt numStr)) (r # rs)). n < 1000} = insert ?n ?S"
      using True by auto
    have "fold ?f (r # rs) m = fold ?f rs (if m < ?n then ?n else m)"
      using True by (simp add: Let_def)
    also have "\<dots> = Max (insert (if m < ?n then ?n else m) ?S)"
      by (rule Cons.IH)
    also have "\<dots> = Max (insert m (insert ?n ?S))"
      by (rule Max_insert_insert[symmetric]) simp
    finally show ?thesis unfolding e .
  next
    case False
    have e: "{n \<in> set (map (\<lambda>numStr. value_or 0 (parseInt numStr)) (r # rs)). n < 1000} = ?S"
      using False by auto
    have "fold ?f (r # rs) m = fold ?f rs m"
      using False by (simp add: Let_def)
    also have "\<dots> = Max (insert m ?S)" by (rule Cons.IH)
    finally show ?thesis unfolding e .
  qed
qed

lemma scan_text_Max: "scan_text t m = Max (insert m {n \<in> set (text_numbers t). n < 1000})"
  unfolding scan_text_def text_numbers_def by (rule scan_text_fold)

lemma Max_insert_Max:
  fixes A B :: "int set"
  assumes "finite A" "finite B"
  shows "Max (insert (Max (insert a A)) B) = Max (insert a (A \<union> B))"
proof (rule Max_eqI[symmetric])
  show "finite (insert a (A \<union> B))" using assms by simp
  have m: "Max (insert a A) \<in> insert a A" using assms(1) by (intro Max_in) auto
  have "Max (insert (Max (insert a A)) B) \<in> insert (Max (insert a A)) B"
    using assms(2) by (intro Max_in) auto
  then show "Max (insert (Max (insert a A)) B) \<in> insert a (A \<union> B)" using m by auto
  fix y assume y: "y \<in> insert a (A \<union> B)"
  have top: "Max (insert a A) \<le> Max (insert (Max (insert a A)) B)"
    using assms(2) by (intro Max_ge) auto
  show "y \<le> Max (insert (Max (insert a A)) B)"
  proof (cases "y \<in> B")
    case True
    then show ?thesis using assms(2) by (intro Max_ge) auto
  next
    case False
    then have "y \<in> insert a A" using y by auto
    then have "y \<le> Max (insert a A)" using assms(1) by (intro Max_ge) auto
    then show ?thesis using top by simp
  qed
qed

lemma scan_node_container_max:
  "scan_text (nodeText p) (scan_links (anchors p) 1) = container_max p"
  unfolding scan_links_Max scan_text_Max container_max_def
  by (rule Max_insert_Max) simp_all

lemma scan_links_ge: "m \<le> scan_links ls m"
  by (simp add: scan_links_Max)

lemma scan_text_ge: "m \<le> scan_text t m"
  by (simp add: scan_text_Max)

lemma scan_containers_ge: "m \<le> scan_containers cs m"
proof (induction cs m rule: scan_containers.induct)
  case (1 maxPage)
  then show ?case by simp
next
  case (2 cs maxPage)
  then show ?case by simp
next
  case (3 pagination cs maxPage)
  let ?m = "scan_text (nodeText pagination) (scan_links (anchors pagination) maxPage)"
  have a: "maxPage \<le> ?m" using scan_links_ge scan_text_ge order_trans by blast
  show ?case
  proof (cases "?m > 1")
    case True
    then show ?thesis using a by (simp add: Let_def)
  next
    case False
    then have "?m \<le> scan_containers cs ?m" using "3.IH" by simp
    then show ?thesis using a False by (simp add: Let_def)
  qed
qed

lemma getTotalPages_ge_1: "1 \<le> getTotalPages doc"
proof -
  have "1 \<le> scan_containers (map (querySelector doc) paginationSelectors) 1"
    by (rule scan_containers_ge)
  moreover have "1 \<le> scan_links (allAnchors doc) 1" by (rule scan_links_ge)
  ultimately show ?thesis by (simp add: getTotalPages_def Let_def)
qed

lemma scan_containers_first:
  "first_some f xs = Some p \<Longrightarrow> 1 < scan_text (nodeText p) (scan_links (anchors p) m)
   \<Longrightarrow> scan_containers (map f xs) m = scan_text (nodeText p) (scan_links (anchors p) m)"
proof (induction xs)
  case Nil
  then show ?case by simp
next
  case (Cons x xs)
  then show ?case by (cases "f x") (auto simp: Let_def)
qed

lemma getTotalPages_first:
  assumes "first_some (querySelector doc) paginationSelectors = Some p" "1 < container_max p"
  shows "getTotalPages doc = container_max p"
proof -
  have "scan_containers (map (querySelector doc) paginationSelectors) 1 = container_max p"
    using scan_containers_first[OF assms(1), of 1] assms(2) by (simp add: scan_node_container_max)
  then show ?thesis using assms(2) by (simp add: getTotalPages_def Let_def)
qed

lemma startsWith_long: "length p \<le> length xs \<Longrightarrow> startsWith (xs @ ys) p = startsWith xs p"
  by (simp add: startsWith_def)

lemma search_page_at_skip:
  "\<not> str_includes (pre @ ''page'') ''page='' \<Longrightarrow>
   search page_at (pre @ ''page='' @ rest) = search page_at (''page='' @ rest)"
proof (induction pre)
  case Nil
  then show ?case by simp
next
  case (Cons c cs)
  have n: "\<not> startsWith ((c # cs) @ ''page'') ''page=''" and r: "\<not> str_includes (cs @ ''page'') ''page=''"
    using Cons.prems by auto
  have "startsWith (((c # cs) @ ''page'') @ (''='' @ rest)) ''page='' = startsWith ((c # cs) @ ''page'') ''page=''"
    by (rule startsWith_long) simp
  then have "\<not> startsWith ((c # cs) @ ''page='' @ rest) ''page=''" using n by simp
  then have "page_at (c # cs @ ''page='' @ rest) = None" by (simp add: page_at_def Let_def)
  then show ?case using Cons.IH[OF r] by simp
qed

lemma no_overlap: "\<not> str_includes pre ''page='' \<Longrightarrow> \<not> str_includes (pre @ ''page'') ''page=''"
proof (induction pre)
  case Nil
  show ?case by (simp add: startsWith_def)
next
  case (Cons c cs)
  have a: "\<not> startsWith (c # cs) ''page=''" and b: "\<not> str_includes (cs @ ''page'') ''page=''"
    using Cons by auto
  have "\<not> startsWith ((c # cs) @ ''page'') ''page=''"
  proof (cases "5 \<le> length (c # cs)")
    case True
    then show ?thesis using a startsWith_long[of "''page=''" "c # cs" "''page''"] by simp
  next
    case False
    then have "length cs < 4" by simp
    then consider "cs = []" | x where "cs = [x]" | x y where "cs = [x, y]" | x y z where "cs = [x, y, z]"
      by (cases cs; cases "tl cs"; cases "tl (tl cs)"; cases "tl (tl (tl cs))") auto
    then show ?thesis by cases (auto simp: startsWith_def)
  qed
  then show ?case using b by simp
qed

lemma str_includes_append: "str_includes (pre @ p @ rest) p"
proof (induction pre)
  case Nil
  have "startsWith (p @ rest) p" by (simp add: startsWith_def)
  then show ?case by (cases "p @ rest") auto
next
  case (Cons c cs)
  then show ?case by simp
qed

lemma page_at_digits:
  assumes "ds \<noteq> []" "list_all is_digit ds" "post = [] \<or> \<not> is_digit (hd post)"
  shows "page_at (''page='' @ ds @ post) = Some ds"
  using assms takeWhile_digits_append[of ds post] by (simp add: page_at_def startsWith_def)

lemma plain_link_page:
  assumes "plain_page_link a k"
  shows "link_page a = Some k"
proof -
  obtain pre ds post where h: "href a = Some (pre @ ''page='' @ ds @ post)"
    and n: "\<not> str_includes pre ''page=''"
    and d: "ds \<noteq> []" "list_all is_digit ds" and p: "post = [] \<or> \<not> is_digit (hd post)"
    and k: "k = int (digits_value ds)"
    using assms unfolding plain_page_link_def by blast
  have "search page_at (''page='' @ ds @ post) = Some ds"
    using search_hit[of "''page='' @ ds @ post" page_at ds] page_at_digits[OF d p] by simp
  then have s: "search page_at (pre @ ''page='' @ ds @ post) = Some ds"
    using search_page_at_skip[OF no_overlap[OF n]] by simp
  have i: "str_includes (pre @ ''page='' @ ds @ post) ''page=''"
    using str_includes_append[of pre "''page=''" "ds @ post"] by simp
  show ?thesis
    unfolding link_page_def h using s i k parseInt_digits[OF d] by (simp add: value_or_def)
qed

lemma no_link_page: "\<not> attr_includes (href a) ''page='' \<Longrightarrow> link_page a = None"
  by (auto simp: link_page_def attr_includes_def split: option.splits)

lemma set_map_filter: "set (List.map_filter f xs) = {y. \<exists>x \<in> set xs. f x = Some y}"
  by (induction xs) (auto simp: List.map_filter_simps split: option.splits)

lemma href_pages_read:
  assumes "plain_links p"
  shows "set (List.map_filter link_page (anchors p)) = href_pages p"
proof (rule set_eqI)
  fix k
  show "k \<in> set (List.map_filter link_page (anchors p)) \<longleftrightarrow> k \<in> href_pages p"
  proof
    assume "k \<in> set (List.map_filter link_page (anchors p))"
    then obtain a where a: "a \<in> set (anchors p)" "link_page a = Some k"
      by (auto simp: set_map_filter)
    have "\<not> attr_includes (href a) ''page='' \<or> (\<exists>j. plain_page_link a j)"
      using assms a(1) by (simp add: plain_links_def list_all_iff)
    then obtain j where j: "plain_page_link a j" using a(2) no_link_page by fastforce
    then have "j = k" using plain_link_page a(2) by fastforce
    then show "k \<in> href_pages p" using a(1) j by (auto simp: href_pages_def)
  next
    assume "k \<in> href_pages p"
    then obtain a where "a \<in> set (anchors p)" "plain_page_link a k" by (auto simp: href_pages_def)
    then show "k \<in> set (List.map_filter link_page (anchors p))"
      using plain_link_page by (auto simp: set_map_filter)
  qed
qed

lemma page_max_read: "plain_links p \<Longrightarrow> container_max p = page_max p"
  by (simp add: container_max_def page_max_def href_pages_read)

lemma page_max_7:
  assumes "plain_links p" "href_pages p = {1..7}"
    and "\<forall>n \<in> set (text_numbers (nodeText p)). n \<le> 7 \<or> 1000 \<le> n"
  shows "page_max p = 7"
  unfolding page_max_def assms(2)
proof (rule Max_eqI)
  show "finite (insert 1 ({1..7} \<union> {n \<in> set (text_numbers (nodeText p)). n < 1000}))" by simp
  show "7 \<in> insert 1 ({1..7::int} \<union> {n \<in> set (text_numbers (nodeText p)). n < 1000})" by simp
  fix y assume "y \<in> insert 1 ({1..7} \<union> {n \<in> set (text_numbers (nodeText p)). n < 1000})"
  then show "y \<le> 7" using assms(3) by auto
qed


lemma Max_7:
  fixes T :: "int set"
  assumes "finite T" "\<forall>n \<in> T. n \<le> 7"
  shows "Max (insert 1 ({1..7} \<union> T)) = 7"
proof (rule Max_eqI)
  show "finite (insert 1 ({1..7} \<union> T))" using assms(1) by simp
  show "7 \<in> insert 1 ({1..7::int} \<union> T)" by simp
  fix y assume "y \<in> insert 1 ({1..7} \<union> T)"
  then show "y \<le> 7" using assms(2) by auto
qed

lemma plain_page_link_query:
  assumes "ds \<noteq> []" "list_all is_digit ds"
  shows "plain_page_link (page_link (''?page='' @ ds)) (int (digits_value ds))"
  unfolding plain_page_link_def
  using assms
  by (intro exI[of _ "''?''"] exI[of _ ds] exI[of _ "[]"]) (simp add: page_link_def startsWith_def)

lemma plain_links_seven_pages: "plain_links seven_pages"
proof -
  have "\<exists>k. plain_page_link (page_link (''?page='' @ [c])) k" if "is_digit c" for c
    using plain_page_link_query[of "[c]"] that by auto
  then show ?thesis
    by (simp add: plain_links_def seven_pages_def is_digit_def)
qed

lemma plain_page_link_at:
  assumes "plain_page_link a k" "href a = Some h"
  shows "\<exists>n < length h. h ! n \<in> {CHR ''?'', CHR ''&''}
           \<and> \<not> str_includes (take (Suc n) h) ''page=''
           \<and> startsWith (drop (Suc n) h) ''page=''"
proof -
  obtain pre ds post where h: "h = pre @ ''page='' @ ds @ post"
    and e: "pre \<noteq> []" "last pre \<in> {CHR ''?'', CHR ''&''}"
    and n: "\<not> str_includes pre ''page=''"
    using assms unfolding plain_page_link_def by auto
  let ?n = "length pre - 1"
  have s: "Suc ?n = length pre" using e(1) by (cases pre) auto
  have 1: "?n < length h" using h e(1) by (cases pre) auto
  have 2: "h ! ?n = last pre" using e(1) unfolding h by (simp add: nth_append last_conv_nth)
  have 3: "take (Suc ?n) h = pre" unfolding s h by simp
  have 4: "drop (Suc ?n) h = ''page='' @ ds @ post" unfolding s h by simp
  have 5: "startsWith (drop (Suc ?n) h) ''page=''" unfolding 4 by (simp add: startsWith_def)
  show ?thesis using 1 2 3 5 e(2) n by metis
qed

text \<open>The links of \<open>three_pages_of_25\<close> are not plain links.\<close>

lemma ex_less_list_ex: "(\<exists>n < m. P n) \<Longrightarrow> list_ex P [0..<m]"
  by (auto simp: list_ex_iff)

lemma per_page_not_plain: "\<not> plain_links three_pages_of_25"
proof -
  let ?h = "''?per_page=25&page=1''"
  define P where "P = (\<lambda>n. ?h ! n \<in> {CHR ''?'', CHR ''&''}
           \<and> \<not> str_includes (take (Suc n) ?h) ''page=''
           \<and> startsWith (drop (Suc n) ?h) ''page='')"
  have "\<not> (\<exists>k. plain_page_link (page_link ?h) k)"
  proof
    assume "\<exists>k. plain_page_link (page_link ?h) k"
    then obtain k where "plain_page_link (page_link ?h) k" ..
    then have "\<exists>n < length ?h. P n"
      unfolding P_def by (rule plain_page_link_at) (simp add: page_link_def)
    then have "list_ex P [0..<length ?h]" by (rule ex_less_list_ex)
    moreover have "\<not> list_ex P [0..<length ?h]" unfolding P_def by code_simp
    ultimately show False by blast
  qed
  moreover have "attr_includes (href (page_link ?h)) ''page=''" by code_simp
  ultimately show ?thesis by (simp add: plain_links_def three_pages_of_25_def)
qed

text \<open>
  C8 (amended). \<open>totalPages()\<close> always returns an integer that is at least 1. Take the
  first pagination candidate that the page has, and let each of its links either have no
  \<open>page=\<close> in its \<open>href\<close> or carry its page number as the query parameter \<open>page\<close> (a
  \<open>?\<close> or \<open>&\<close>, then \<open>page=\<close> and the digits) with no text \<open>page=\<close> before it. When
  the largest of these page numbers, of whatever size, and of the numbers below 1000 in the
  text of the container is above 1, it is the result: only numbers of the text are ignored
  from 1000 on. In particular, when these links are to the pages 1 to 7, in any order, and
  every number of the text is at most 7 or at least 1000, the result is 7.
\<close>

theorem getTotalPages_max:
  "1 \<le> getTotalPages doc
   \<and> (\<forall>p. first_some (querySelector doc) paginationSelectors = Some p \<and> plain_links p
          \<and> 1 < page_max p
          \<longrightarrow> getTotalPages doc = page_max p)
   \<and> (\<forall>p. first_some (querySelector doc) paginationSelectors = Some p \<and> plain_links p
          \<and> href_pages p = {1..7}
          \<and> (\<forall>n \<in> set (text_numbers (nodeText p)). n \<le> 7 \<or> 1000 \<le> n)
          \<longrightarrow> getTotalPages doc = 7)"
proof (intro conjI allI impI)
  show "1 \<le> getTotalPages doc" by (rule getTotalPages_ge_1)
next
  fix p
  assume "first_some (querySelector doc) paginationSelectors = Some p \<and> plain_links p
          \<and> 1 < page_max p"
  then show "getTotalPages doc = page_max p"
    using getTotalPages_first[of doc p] page_max_read[of p] by simp
next
  fix p
  assume a: "first_some (querySelector doc) paginationSelectors = Some p \<and> plain_links p
          \<and> href_pages p = {1..7}
          \<and> (\<forall>n \<in> set (text_numbers (nodeText p)). n \<le> 7 \<or> 1000 \<le> n)"
  then have "page_max p = 7" using page_max_7 by blast
  then show "getTotalPages doc = 7"
    using a getTotalPages_first[of doc p] page_max_read[of p] by simp
qed

theorem getTotalPages_max_witness:
  "first_some (querySelector (with_pagination seven_pages empty_document)) paginationSelectors
     = Some seven_pages
   \<and> map href (anchors seven_pages)
       = map Some [''?page=3'', ''?page=1'', ''?page=7'', ''?page=2'', ''?page=6'', ''?page=4'', ''?page=5'']
   \<and> plain_links seven_pages
   \<and> href_pages seven_pages = {1..7}
   \<and> text_numbers (nodeText seven_pages) = [1, 2, 3, 7, 2500]
   \<and> getTotalPages (with_pagination seven_pages empty_document) = 7"
proof -
  have f: "first_some (querySelector (with_pagination seven_pages empty_document)) paginationSelectors
     = Some seven_pages" by code_simp
  have h: "map href (anchors seven_pages)
       = map Some [''?page=3'', ''?page=1'', ''?page=7'', ''?page=2'', ''?page=6'', ''?page=4'', ''?page=5'']"
    by code_simp
  have l: "List.map_filter link_page (anchors seven_pages) = [3, 1, 7, 2, 6, 4, 5]" by code_simp
  have t: "text_numbers (nodeText seven_pages) = [1, 2, 3, 7, 2500]" by code_simp
  have s: "href_pages seven_pages = {1..7}"
    unfolding href_pages_read[OF plain_links_seven_pages, symmetric] l by auto
  have n: "\<forall>n \<in> set (text_numbers (nodeText seven_pages)). n \<le> 7 \<or> 1000 \<le> n"
    unfolding t by simp
  have "getTotalPages (with_pagination seven_pages empty_document) = 7"
    using getTotalPages_max[of "with_pagination seven_pages empty_document"] f s n
      plain_links_seven_pages by blast
  then show ?thesis using f h t s plain_links_seven_pages by simp
qed

text \<open>Links to the pages 1 to 7 and one link \<open>?page=1500\<close>: the number from the href is not ignored, the result is 1500 and not 7.\<close>

theorem getTotalPages_max_counterexample:
  "map href (anchors seven_pages_and_far_link)
     = map Some [''?page=3'', ''?page=1'', ''?page=7'', ''?page=2'', ''?page=6'', ''?page=4'', ''?page=5'',
                 ''?page=1500'']
   \<and> text_numbers (nodeText seven_pages_and_far_link) = [1, 2, 3, 7, 2500]
   \<and> getTotalPages (with_pagination seven_pages_and_far_link empty_document) = 1500"
  by code_simp

text \<open>
  The statement leaves out links with the text \<open>page=\<close> before the parameter. The
  pattern \<open>/page=(\d+)/\<close> is not tied to the start of a parameter name, so in
  \<open>?per_page=25&page=3\<close> it finds \<open>page=25\<close> inside \<open>per_page=25\<close> first: for links to
  the pages 1 to 3 of this form the function reads 25 from each and returns 25.
\<close>

lemma getTotalPages_per_page:
  "map href (anchors three_pages_of_25)
     = map Some [''?per_page=25&page=1'', ''?per_page=25&page=2'', ''?per_page=25&page=3'']
   \<and> List.map_filter link_page (anchors three_pages_of_25) = [25, 25, 25]
   \<and> getTotalPages (with_pagination three_pages_of_25 empty_document) = 25"
  by code_simp

section \<open>Facts about the sort controller\<close>

lemma set_insert_by: "set (insert_by cmp x ys) = insert x (set ys)"
  by (induction ys) auto

lemma mset_insert_by: "mset (insert_by cmp x ys) = add_mset x (mset ys)"
  by (induction ys) auto

lemma mset_array_sort: "mset (array_sort cmp xs) = mset xs"
  by (induction xs) (auto simp: array_sort_def mset_insert_by)

lemma length_array_sort: "length (array_sort cmp xs) = length xs"
  using mset_array_sort[of cmp xs] by (metis size_mset)

lemma all_last_insert_by:
  assumes "\<And>a b. B a \<Longrightarrow> \<not> B b \<Longrightarrow> 0 < cmp a b"
    and "\<And>a b. \<not> B a \<Longrightarrow> B b \<Longrightarrow> cmp a b \<le> 0"
    and "all_last B ys"
  shows "all_last B (insert_by cmp x ys)"
  using assms(3)
proof (induction ys)
  case Nil
  then show ?case by simp
next
  case (Cons y ys)
  show ?case
  proof (cases "cmp x y \<le> 0")
    case True
    have "B x \<longrightarrow> B y" using True assms(1)[of x y] by auto
    then show ?thesis using True Cons.prems by auto
  next
    case False
    have "B y \<longrightarrow> B x" using False assms(2)[of x y] by auto
    then show ?thesis using False Cons
      by (auto simp: list_all_iff set_insert_by)
  qed
qed

lemma all_last_array_sort:
  assumes "\<And>a b. B a \<Longrightarrow> \<not> B b \<Longrightarrow> 0 < cmp a b"
    and "\<And>a b. \<not> B a \<Longrightarrow> B b \<Longrightarrow> cmp a b \<le> 0"
  shows "all_last B (array_sort cmp xs)"
proof (induction xs)
  case Nil
  then show ?case by (simp add: array_sort_def)
next
  case (Cons x xs)
  have "array_sort cmp (x # xs) = insert_by cmp x (array_sort cmp xs)"
    by (simp add: array_sort_def)
  then show ?case using all_last_insert_by[OF assms Cons] by simp
qed

lemma all_last_nth:
  "all_last B xs \<Longrightarrow> i < j \<Longrightarrow> j < length xs \<Longrightarrow> B (xs ! i) \<Longrightarrow> B (xs ! j)"
proof (induction xs arbitrary: i j)
  case Nil
  then show ?case by simp
next
  case (Cons x xs)
  show ?case
  proof (cases i)
    case 0
    then have "list_all B xs" using Cons.prems by simp
    moreover obtain j' where "j = Suc j'" using Cons.prems(2) by (cases j) auto
    ultimately show ?thesis using Cons.prems(3) by (simp add: list_all_length)
  next
    case (Suc i')
    moreover obtain j' where "j = Suc j'" using Cons.prems(2) by (cases j) auto
    ultimately show ?thesis using Cons.prems Cons.IH[of i' j'] by simp
  qed
qed

lemma all_last_all: "list_all B xs \<Longrightarrow> all_last B xs"
  by (induction xs) auto

lemma compareRecords_blank:
  "getCellValue pf (element a) (column st) = StringValue [] \<Longrightarrow>
   getCellValue pf (element b) (column st) \<noteq> StringValue [] \<Longrightarrow> 0 < compareRecords pf st a b"
  "getCellValue pf (element a) (column st) \<noteq> StringValue [] \<Longrightarrow>
   getCellValue pf (element b) (column st) = StringValue [] \<Longrightarrow> compareRecords pf st a b \<le> 0"
  by (simp_all add: compareRecords_def Let_def)

lemma sortData_result:
  assumes "data < length h"
  shows "sortData pf st h data =
     (if column st = - 1 then (data, h)
      else (length h, h @ [array_sort (compareRecords pf st) (h ! data)]))"
  using assms by (simp add: sortData_def Let_def nth_append)

lemma toLowerCase_empty: "toLowerCase t = [] \<longleftrightarrow> t = []"
  by (simp add: toLowerCase_def)

lemma textCellValue_blank:
  "textCellValue pf text = StringValue [] \<longleftrightarrow> text = [] \<or> text = ''-''"
  by (auto simp: textCellValue_def toLowerCase_empty split: option.splits prod.splits)

lemma getCellValue_blank_other:
  assumes "c \<noteq> 0"
  shows "getCellValue pf r c = StringValue [] \<longleftrightarrow>
     c < 0 \<or> int (length (cells r)) \<le> c \<or> cellText (cells r ! nat c) = []
       \<or> cellText (cells r ! nat c) = ''-''"
  using assms by (auto simp: getCellValue_def Let_def textCellValue_blank)

lemma getCellValue_blank_rank:
  "getCellValue pf r 0 = StringValue [] \<longleftrightarrow>
     cells r = [] \<or> (\<not> hasAvatar (cells r ! 0) \<and> tbodyIndex r = None
        \<and> (cellText (cells r ! 0) = [] \<or> cellText (cells r ! 0) = ''-''))"
  by (auto simp: getCellValue_def Let_def textCellValue_blank rankCellValue_def split: option.splits if_splits)

text \<open>
  C9 (amended). For every record list and every sort column, in the sequence returned by
  \<open>sortData\<close> every record whose value in the sorted column (what \<open>getCellValue\<close>
  returns) is blank appears after every record with a non-blank value, in both directions.
  In a column other than 0 the value is blank exactly when the row has no such cell or the
  trimmed text of the cell is empty or \<open>-\<close>. In the rank column 0 such a cell is blank
  only when it has no avatar and the row lies in no table body: otherwise its value is 1
  or the position of the row, and it is sorted as that number.
\<close>

theorem sortData_blank_last:
  assumes "data < length h" and "sortData pf st h data = (r, h')"
  shows "(\<forall>i j. i < j \<and> j < length (h' ! r)
            \<and> getCellValue pf (element (h' ! r ! i)) (column st) = StringValue []
            \<longrightarrow> getCellValue pf (element (h' ! r ! j)) (column st) = StringValue [])
      \<and> (\<forall>rw c. c \<noteq> 0 \<longrightarrow>
            (getCellValue pf rw c = StringValue [] \<longleftrightarrow>
               c < 0 \<or> int (length (cells rw)) \<le> c \<or> cellText (cells rw ! nat c) = []
                 \<or> cellText (cells rw ! nat c) = ''-''))
      \<and> (\<forall>rw. getCellValue pf rw 0 = StringValue [] \<longleftrightarrow>
            cells rw = [] \<or> (\<not> hasAvatar (cells rw ! 0) \<and> tbodyIndex rw = None
              \<and> (cellText (cells rw ! 0) = [] \<or> cellText (cells rw ! 0) = ''-'')))"
proof -
  let ?B = "\<lambda>a. getCellValue pf (element a) (column st) = StringValue []"
  have sorted: "all_last ?B (h' ! r)"
  proof (cases "column st = - 1")
    case True
    then have "list_all ?B (h' ! r)" by (simp add: getCellValue_def list_all_iff)
    then show ?thesis by (rule all_last_all)
  next
    case False
    then have "h' ! r = array_sort (compareRecords pf st) (h ! data)"
      using assms sortData_result[OF assms(1), of pf st] by auto
    moreover have "all_last ?B (array_sort (compareRecords pf st) (h ! data))"
      by (rule all_last_array_sort) (simp_all add: compareRecords_blank)
    ultimately show ?thesis by simp
  qed
  have a: "\<forall>i j. i < j \<and> j < length (h' ! r) \<and> ?B (h' ! r ! i) \<longrightarrow> ?B (h' ! r ! j)"
    using all_last_nth[OF sorted] by blast
  show ?thesis using a getCellValue_blank_other getCellValue_blank_rank by blast
qed

theorem sortData_blank_last_witness:
  "column_texts 3 table_blank_times = [''10:00'', [], ''-'', ''12:34'']
   \<and> column_texts 3
        (snd (sortData example_platform (by_column 3 Desc) [table_blank_times] 0)
           ! fst (sortData example_platform (by_column 3 Desc) [table_blank_times] 0))
      = [''12:34'', ''10:00'', [], ''-'']
   \<and> getCellValue example_platform
        (element (snd (sortData example_platform (by_column 3 Desc) [table_blank_times] 0)
           ! fst (sortData example_platform (by_column 3 Desc) [table_blank_times] 0) ! 3)) 3
      = StringValue []"
proof -
  let ?res = "sortData example_platform (by_column 3 Desc) [table_blank_times] 0"
  have d: "(0::nat) < length [table_blank_times]" by simp
  have e: "?res = (fst ?res, snd ?res)" by simp
  have c: "column (by_column 3 Desc) = 3" by (simp add: by_column_def)
  have t: "column_texts 3 table_blank_times = [''10:00'', [], ''-'', ''12:34'']" by code_simp
  have o: "column_texts 3 (snd ?res ! fst ?res) = [''12:34'', ''10:00'', [], ''-'']" by code_simp
  have l: "length (snd ?res ! fst ?res) = 4" by code_simp
  have b: "getCellValue example_platform (element (snd ?res ! fst ?res ! 2)) 3 = StringValue []"
    by code_simp
  have "\<forall>i j. i < j \<and> j < length (snd ?res ! fst ?res)
            \<and> getCellValue example_platform (element (snd ?res ! fst ?res ! i)) (column (by_column 3 Desc))
                = StringValue []
            \<longrightarrow> getCellValue example_platform (element (snd ?res ! fst ?res ! j)) (column (by_column 3 Desc))
                = StringValue []"
    using sortData_blank_last[OF d e] by (rule conjunct1)
  then have "(2::nat) < 3 \<and> 3 < length (snd ?res ! fst ?res)
            \<and> getCellValue example_platform (element (snd ?res ! fst ?res ! 2)) (column (by_column 3 Desc))
                = StringValue []
            \<longrightarrow> getCellValue example_platform (element (snd ?res ! fst ?res ! 3)) (column (by_column 3 Desc))
                = StringValue []"
    by (elim allE)
  then have "getCellValue example_platform (element (snd ?res ! fst ?res ! 3)) 3 = StringValue []"
    unfolding c l using b by simp
  then show ?thesis using t o by simp
qed

text \<open>Two rows of a table body, the first with rank text \<open>5\<close>, the second with an empty rank cell: sorted by column 0 ascending, the row with the empty cell (value 2, its position) comes first.\<close>

theorem sortData_blank_last_counterexample:
  "column_texts 0 table_blank_rank = [''5'', []]
   \<and> column_texts 0
        (snd (sortData example_platform (by_column 0 Asc) [table_blank_rank] 0)
           ! fst (sortData example_platform (by_column 0 Asc) [table_blank_rank] 0))
      = [[], ''5'']"
  by code_simp

text \<open>
  C10 (amended). For every record list, \<open>sortData\<close> never mutates its input: every array
  of the store, the input among them, is unchanged, and the result is a permutation of the
  input (same length, same records). With a sort column set, the result is a fresh array;
  when the current sort column is \<open>-1\<close> (unsorted), no array is made and the result is the
  input array itself, in its original order.
\<close>

theorem sortData_frame:
  assumes "data < length h" and "sortData pf st h data = (r, h')"
  shows "take (length h) h' = h \<and> h' ! data = h ! data
      \<and> r < length h' \<and> mset (h' ! r) = mset (h ! data) \<and> length (h' ! r) = length (h ! data)
      \<and> (column st \<noteq> - 1 \<longrightarrow> r = length h \<and> length h' = Suc (length h))
      \<and> (column st = - 1 \<longrightarrow> r = data \<and> h' = h)"
proof (cases "column st = - 1")
  case True
  then have "r = data" "h' = h" using assms sortData_result[OF assms(1), of pf st] by auto
  then show ?thesis using True assms(1) by simp
next
  case False
  then have r: "r = length h" and h': "h' = h @ [array_sort (compareRecords pf st) (h ! data)]"
    using assms sortData_result[OF assms(1), of pf st] by auto
  have "h' ! r = array_sort (compareRecords pf st) (h ! data)" using r h' by simp
  then have "mset (h' ! r) = mset (h ! data)" "length (h' ! r) = length (h ! data)"
    by (simp_all add: mset_array_sort length_array_sort)
  moreover have "take (length h) h' = h" "h' ! data = h ! data" "r < length h'"
    using r h' assms(1) by (simp_all add: nth_append)
  ultimately show ?thesis using False r h' by simp
qed

theorem sortData_frame_witness:
  "column_texts 3 (snd (sortData example_platform (by_column 3 Asc) [table_blank_times] 0) ! 0)
     = [''10:00'', [], ''-'', ''12:34'']
   \<and> column_texts 3 (snd (sortData example_platform (by_column 3 Asc) [table_blank_times] 0) ! 1)
     = [''10:00'', ''12:34'', [], ''-'']
   \<and> fst (sortData example_platform (by_column 3 Asc) [table_blank_times] 0) = 1"
proof -
  let ?res = "sortData example_platform (by_column 3 Asc) [table_blank_times] 0"
  have d: "(0::nat) < length [table_blank_times]" by simp
  have e: "?res = (fst ?res, snd ?res)" by simp
  have c: "column (by_column 3 Asc) \<noteq> - 1" by (simp add: by_column_def)
  have f: "snd ?res ! 0 = [table_blank_times] ! 0" and g: "fst ?res = length [table_blank_times]"
    using sortData_frame[OF d e] c by simp_all
  have t: "column_texts 3 table_blank_times = [''10:00'', [], ''-'', ''12:34'']" by code_simp
  have o: "column_texts 3 (snd ?res ! 1) = [''10:00'', ''12:34'', [], ''-'']" by code_simp
  show ?thesis using f g t o by simp
qed

text \<open>With the sort column \<open>-1\<close> the address returned is the address of the input, and the store has no new array.\<close>

theorem sortData_frame_counterexample:
  "sortData example_platform (by_column (- 1) Asc) [table_blank_times] 0 = (0, [table_blank_times])"
  by (simp add: sortData_def by_column_def)

section \<open>Facts about the page requests\<close>

lemma params_set_keys: "fst ` set (params_set k v ps) = insert k (fst ` set ps)"
  by (induction ps) auto

lemma obj_set_keys: "fst ` set (obj_set k v ps) = insert k (fst ` set ps)"
  by (induction ps) auto

lemma params_set_sub: "fst ` set q \<subseteq> A \<Longrightarrow> k \<in> A \<Longrightarrow> fst ` set (params_set k v q) \<subseteq> A"
  by (simp add: params_set_keys)

lemma obj_set_sub: "fst ` set q \<subseteq> A \<Longrightarrow> k \<in> A \<Longrightarrow> fst ` set (obj_set k v q) \<subseteq> A"
  by (simp add: obj_set_keys)

lemma fold_allowed_keys:
  assumes "set allowedParams \<subseteq> A"
  shows "fst ` set q \<subseteq> A \<Longrightarrow> fst ` set (fold (\<lambda>(key, value) q.
                       if value \<noteq> [] \<and> key \<noteq> ''page'' \<and> key \<in> set allowedParams
                       then params_set key value q else q) fd q) \<subseteq> A"
proof (induction fd arbitrary: q)
  case Nil
  then show ?case by simp
next
  case (Cons e fd)
  obtain key v where e: "e = (key, v)" by (cases e)
  show ?case
  proof (cases "v \<noteq> [] \<and> key \<noteq> ''page'' \<and> key \<in> set allowedParams")
    case True
    then have "key \<in> A" using assms by blast
    then have "fst ` set (params_set key v q) \<subseteq> A" using Cons.prems by (rule params_set_sub[rotated])
    then show ?thesis using Cons.IH[of "params_set key v q"] True e by simp
  next
    case False
    then show ?thesis using Cons.IH[of q] Cons.prems e by auto
  qed
qed

lemma fold_important_keys:
  "fst ` set q \<subseteq> A \<Longrightarrow> set ps \<subseteq> A \<Longrightarrow> fst ` set (fold (\<lambda>param q.
                       case truthy (params_get original param) of
                         None \<Rightarrow> q
                       | Some value \<Rightarrow> if \<not> params_has q param then params_set param value q else q)
                 ps q) \<subseteq> A"
proof (induction ps arbitrary: q)
  case Nil
  then show ?case by simp
next
  case (Cons p ps)
  let ?q = "case truthy (params_get original p) of
                         None \<Rightarrow> q
                       | Some value \<Rightarrow> if \<not> params_has q p then params_set p value q else q"
  have p: "p \<in> A" and ps: "set ps \<subseteq> A" using Cons.prems(2) by simp_all
  have "fst ` set ?q \<subseteq> A"
  proof (cases "truthy (params_get original p)")
    case None
    then show ?thesis using Cons.prems(1) by simp
  next
    case (Some v)
    show ?thesis
    proof (cases "params_has q p")
      case True
      then show ?thesis using Some Cons.prems(1) by simp
    next
      case False
      then show ?thesis using Some params_set_sub[OF Cons.prems(1) p, of v] by simp
    qed
  qed
  then have "fst ` set (fold (\<lambda>param q.
                       case truthy (params_get original param) of
                         None \<Rightarrow> q
                       | Some value \<Rightarrow> if \<not> params_has q param then params_set param value q else q)
                 ps ?q) \<subseteq> A" using ps by (rule Cons.IH)
  then show ?case by simp
qed

lemma parseUrlParams_fold_keys:
  "fst ` set acc \<subseteq> set urlAllowedParams \<Longrightarrow>
   fst ` set (fold (\<lambda>(key, value) params.
                  if key \<noteq> ''page'' \<and> key \<in> set urlAllowedParams then obj_set key value params
                  else params) sp acc) \<subseteq> set urlAllowedParams"
proof (induction sp arbitrary: acc)
  case Nil
  then show ?case by simp
next
  case (Cons e sp)
  obtain key v where e: "e = (key, v)" by (cases e)
  show ?case
  proof (cases "key \<noteq> ''page'' \<and> key \<in> set urlAllowedParams")
    case True
    then have "fst ` set (obj_set key v acc) \<subseteq> set urlAllowedParams"
      using obj_set_sub[OF Cons.prems, of key v] by simp
    then show ?thesis using Cons.IH[of "obj_set key v acc"] True e by simp
  next
    case False
    then show ?thesis using Cons.IH[of acc] Cons.prems e by auto
  qed
qed

lemma parseUrlParams_keys: "fst ` set (parseUrlParams doc u) \<subseteq> set urlAllowedParams"
proof (cases "urlSearchParams doc u")
  case None
  then show ?thesis by (simp add: parseUrlParams_def)
next
  case (Some sp)
  then show ?thesis using parseUrlParams_fold_keys[of "[]" sp] by (simp add: parseUrlParams_def)
qed

lemma getPageRequest_query_keys:
  "fst ` set (query (getPageRequest doc page)) \<subseteq> insert ''page'' (set allowedParams)"
proof -
  let ?A = "insert ''page'' (set allowedParams)"
  let ?q0 = "params_set ''partial'' ''true'' (params_set ''page'' (string_of_nat page) [])"
  have "fst ` set ?q0 = {''partial'', ''page''}" by (simp only: params_set_keys) simp
  then have q0: "fst ` set ?q0 \<subseteq> ?A" by (simp add: allowedParams_def)
  have al: "set allowedParams \<subseteq> ?A" "set importantParams \<subseteq> ?A"
    by (auto simp: allowedParams_def importantParams_def)
  have "query (getPageRequest doc page) =
     fold (\<lambda>param q.
                       case truthy (params_get (case urlSearchParams doc (locationHref doc) of None \<Rightarrow> [] | Some ps \<Rightarrow> ps) param) of
                         None \<Rightarrow> q
                       | Some value \<Rightarrow> if \<not> params_has q param then params_set param value q else q)
                 importantParams
       (fold (\<lambda>(key, value) q.
                       if value \<noteq> [] \<and> key \<noteq> ''page'' \<and> key \<in> set allowedParams
                       then params_set key value q else q)
                 (formData (getFilterRequestData doc)) ?q0)"
    unfolding getPageRequest_def Let_def by (simp only: request.simps)
  then show ?thesis
    using fold_important_keys[OF fold_allowed_keys[OF al(1) q0] al(2)] by simp
qed


lemma post_body:
  "body (buildFilteredPageRequest doc page) =
     (''page'', string_of_nat page) # filter (\<lambda>(key, value). value \<noteq> []) (formData (getFilterRequestData doc))
       @ (case csrfToken doc of None \<Rightarrow> [] | Some t \<Rightarrow> [(''authenticity_token'', t)])"
  by (simp add: buildFilteredPageRequest_def Let_def split: option.splits)


lemma post_body_keys:
  "fst ` set (body (buildFilteredPageRequest doc page)) \<subseteq>
     {''page'', ''authenticity_token''} \<union> fst ` set (formData (getFilterRequestData doc))"
proof (cases "csrfToken doc")
  case None
  then show ?thesis unfolding post_body by force
next
  case (Some t)
  then show ?thesis unfolding post_body by force
qed

lemma post_body_carries:
  "set (filter (\<lambda>(key, value). value \<noteq> []) (formData (getFilterRequestData doc)))
     \<subseteq> set (body (buildFilteredPageRequest doc page))"
  unfolding post_body by (simp add: subset_iff)

text \<open>
  C1 (amended). For every page number, the query of the GET request built in
  \<open>loadPageDataGET\<close> carries, besides the page number, only parameters whose names are in
  the allow-list of seven names, and \<open>parseUrlParams\<close> takes from an address only names
  of its own list of four. The form body of the POST request built by
  \<open>buildFilteredPageRequest\<close> is not filtered: besides the page number and the CSRF
  token it carries every non-empty field of the form data gathered from the page (hidden
  inputs, data attributes, the segment id), and no other name.
\<close>

theorem page_request_parameters:
  "fst ` set (query (getPageRequest doc page)) \<subseteq> insert ''page'' (set allowedParams)
   \<and> body (getPageRequest doc page) = []
   \<and> (\<forall>u. fst ` set (parseUrlParams doc u) \<subseteq> set urlAllowedParams)
   \<and> query (buildFilteredPageRequest doc page) = []
   \<and> fst ` set (body (buildFilteredPageRequest doc page)) \<subseteq>
        {''page'', ''authenticity_token''} \<union> fst ` set (formData (getFilterRequestData doc))
   \<and> set (filter (\<lambda>(key, value). value \<noteq> []) (formData (getFilterRequestData doc)))
        \<subseteq> set (body (buildFilteredPageRequest doc page))"
proof (intro conjI allI)
  show "fst ` set (query (getPageRequest doc page)) \<subseteq> insert ''page'' (set allowedParams)"
    by (rule getPageRequest_query_keys)
  show "body (getPageRequest doc page) = []"
    by (simp add: getPageRequest_def Let_def)
  show "fst ` set (parseUrlParams doc u) \<subseteq> set urlAllowedParams" for u
    by (rule parseUrlParams_keys)
  show "query (buildFilteredPageRequest doc page) = []"
    by (simp add: buildFilteredPageRequest_def Let_def)
  show "fst ` set (body (buildFilteredPageRequest doc page)) \<subseteq>
        {''page'', ''authenticity_token''} \<union> fst ` set (formData (getFilterRequestData doc))"
    by (rule post_body_keys)
  show "set (filter (\<lambda>(key, value). value \<noteq> []) (formData (getFilterRequestData doc)))
        \<subseteq> set (body (buildFilteredPageRequest doc page))"
    by (rule post_body_carries)
qed

theorem page_request_parameters_witness:
  "urlSearchParams segment_page (locationHref segment_page)
     = Some [(''filter'', ''overall''), (''utm_source'', ''mail'')]
   \<and> (''filter'', ''overall'') \<in> set (query (getPageRequest segment_page 2))
   \<and> ''utm_source'' \<notin> fst ` set (query (getPageRequest segment_page 2))"
proof -
  have a: "urlSearchParams segment_page (locationHref segment_page)
     = Some [(''filter'', ''overall''), (''utm_source'', ''mail'')]" by code_simp
  have b: "query (getPageRequest segment_page 2)
     = [(''page'', ''2''), (''partial'', ''true''), (''filter'', ''overall'')]" by code_simp
  have "fst ` set (query (getPageRequest segment_page 2)) \<subseteq> insert ''page'' (set allowedParams)"
    using page_request_parameters[of segment_page 2] by (rule conjunct1)
  moreover have "''utm_source'' \<notin> insert ''page'' (set allowedParams)"
    by (simp add: allowedParams_def)
  ultimately have "''utm_source'' \<notin> fst ` set (query (getPageRequest segment_page 2))" by blast
  then show ?thesis using a b by simp
qed

text \<open>On a segment page with a hidden input \<open>athlete_id\<close>, the POST body carries \<open>athlete_id\<close> and \<open>segment_id\<close>, two names outside the allow-list.\<close>

theorem page_request_parameters_counterexample:
  "forms segment_page = [[\<lparr>inputType = ''hidden'', inputName = ''athlete_id'', inputValue = ''42''\<rparr>]]
   \<and> pathname segment_page = ''/segments/123''
   \<and> body (buildFilteredPageRequest segment_page 2)
       = [(''page'', ''2''), (''athlete_id'', ''42''), (''segment_id'', ''123'')]"
  by code_simp

section \<open>Facts about the page aggregator\<close>

text \<open>One turn of the loop, as a function of the state before it.\<close>

lemma pageLoop_turn:
  assumes "int pageNo \<le> totalPages" "\<not> loadingAborted s"
  shows "\<exists>s3. pageLoop w totalPages pageNo s = pageLoop w totalPages (Suc pageNo) s3
      \<and> allPagesData s3 = allPagesData s @ fst (loadPageData w pageNo)
      \<and> requests s3 = requests s @ snd (loadPageData w pageNo)
      \<and> tableBody s3 = tableBody s \<and> alerts s3 = alerts s
      \<and> paginationHidden s3 = paginationHidden s
      \<and> loadingAborted s3 = cancelDuring w pageNo"
proof -
  obtain pageData sent where l: "loadPageData w pageNo = (pageData, sent)"
    by (cases "loadPageData w pageNo")
  let ?s1 = "s\<lparr>requests := requests s @ sent\<rparr>"
  let ?s2 = "if pageData \<noteq> [] then ?s1\<lparr>allPagesData := allPagesData ?s1 @ pageData\<rparr> else ?s1"
  let ?s3 = "if cancelDuring w pageNo then cancelClicked ?s2 else ?s2"
  have "pageLoop w totalPages pageNo s = pageLoop w totalPages (Suc pageNo) ?s3"
    using assms l by (subst pageLoop.simps) (simp add: Let_def)
  moreover have "allPagesData ?s3 = allPagesData s @ pageData" "requests ?s3 = requests s @ sent"
    "tableBody ?s3 = tableBody s" "alerts ?s3 = alerts s" "paginationHidden ?s3 = paginationHidden s"
    "loadingAborted ?s3 = cancelDuring w pageNo"
    using assms(2) by (simp_all add: cancelClicked_def)
  ultimately show ?thesis using l by (intro exI[of _ ?s3]) simp
qed

lemma pageLoop_done: "\<not> int pageNo \<le> totalPages \<Longrightarrow> pageLoop w totalPages pageNo s = (False, s)"
  by (subst pageLoop.simps) simp

lemma pageLoop_aborted:
  "int pageNo \<le> totalPages \<Longrightarrow> loadingAborted s \<Longrightarrow> pageLoop w totalPages pageNo s = (True, s)"
  by (subst pageLoop.simps) simp

lemma upt_head: "a < b \<Longrightarrow> [a..<b] = a # [Suc a..<b]"
  by (simp add: upt_conv_Cons)


lemma pageLoop_completed:
  "\<not> loadingAborted s \<Longrightarrow> (\<forall>q. pageNo \<le> q \<and> int q < totalPages \<longrightarrow> \<not> cancelDuring w q) \<Longrightarrow>
     \<exists>s'. pageLoop w totalPages pageNo s = (False, s')
      \<and> allPagesData s' = allPagesData s @ concat (map (\<lambda>q. fst (loadPageData w q)) [pageNo..<nat (totalPages + 1)])
      \<and> requests s' = requests s @ concat (map (\<lambda>q. snd (loadPageData w q)) [pageNo..<nat (totalPages + 1)])
      \<and> tableBody s' = tableBody s \<and> alerts s' = alerts s
      \<and> paginationHidden s' = paginationHidden s"
proof (induction "nat (totalPages + 1) - pageNo" arbitrary: pageNo s)
  case 0
  then have "\<not> int pageNo \<le> totalPages" by linarith
  moreover have "[pageNo..<nat (totalPages + 1)] = []" using 0 by simp
  ultimately show ?case using pageLoop_done[of pageNo totalPages w s] by simp
next
  case (Suc k)
  have le: "int pageNo \<le> totalPages" using Suc.hyps(2) by linarith
  obtain s3 where t: "pageLoop w totalPages pageNo s = pageLoop w totalPages (Suc pageNo) s3"
      and d: "allPagesData s3 = allPagesData s @ fst (loadPageData w pageNo)"
         "requests s3 = requests s @ snd (loadPageData w pageNo)"
         "tableBody s3 = tableBody s" "alerts s3 = alerts s" "paginationHidden s3 = paginationHidden s"
      and a: "loadingAborted s3 = cancelDuring w pageNo"
    using pageLoop_turn[OF le Suc.prems(1), of w] by auto
  have hd: "[pageNo..<nat (totalPages + 1)] = pageNo # [Suc pageNo..<nat (totalPages + 1)]"
    using le by (intro upt_head) linarith
  show ?case
  proof (cases "int (Suc pageNo) \<le> totalPages")
    case True
    then have na: "\<not> loadingAborted s3" using a Suc.prems(2) by simp
    have k: "k = nat (totalPages + 1) - Suc pageNo" using Suc.hyps(2) by linarith
    have "\<exists>s'. pageLoop w totalPages (Suc pageNo) s3 = (False, s')
      \<and> allPagesData s' = allPagesData s3 @ concat (map (\<lambda>q. fst (loadPageData w q)) [Suc pageNo..<nat (totalPages + 1)])
      \<and> requests s' = requests s3 @ concat (map (\<lambda>q. snd (loadPageData w q)) [Suc pageNo..<nat (totalPages + 1)])
      \<and> tableBody s' = tableBody s3 \<and> alerts s' = alerts s3
      \<and> paginationHidden s' = paginationHidden s3"
      using Suc.prems(2) na by (intro Suc.hyps(1)[OF k]) auto
    then show ?thesis using t d hd by auto
  next
    case False
    then have f: "pageLoop w totalPages (Suc pageNo) s3 = (False, s3)" by (rule pageLoop_done)
    have e: "[Suc pageNo..<nat (totalPages + 1)] = []" using False by simp
    show ?thesis using t d by (simp add: f hd e)
  qed
qed

lemma pageLoop_frame:
  "tableBody (snd (pageLoop w totalPages pageNo s)) = tableBody s
   \<and> alerts (snd (pageLoop w totalPages pageNo s)) = alerts s
   \<and> paginationHidden (snd (pageLoop w totalPages pageNo s)) = paginationHidden s"
proof (induction "nat (totalPages + 1) - pageNo" arbitrary: pageNo s)
  case 0
  then have "\<not> int pageNo \<le> totalPages" by linarith
  then show ?case by (simp add: pageLoop_done)
next
  case (Suc k)
  have le: "int pageNo \<le> totalPages" using Suc.hyps(2) by linarith
  show ?case
  proof (cases "loadingAborted s")
    case True
    then show ?thesis using le by (simp add: pageLoop_aborted)
  next
    case False
    obtain s3 where t: "pageLoop w totalPages pageNo s = pageLoop w totalPages (Suc pageNo) s3"
      and d: "tableBody s3 = tableBody s" "alerts s3 = alerts s" "paginationHidden s3 = paginationHidden s"
      using pageLoop_turn[OF le False, of w] by auto
    have k: "k = nat (totalPages + 1) - Suc pageNo" using Suc.hyps(2) by linarith
    show ?thesis using Suc.hyps(1)[OF k, of s3] t d by simp
  qed
qed

lemma parseCurrentPage_fields:
  "tableBody (parseCurrentPage s) = tableBody s" "alerts (parseCurrentPage s) = alerts s"
  "requests (parseCurrentPage s) = requests s" "paginationHidden (parseCurrentPage s) = paginationHidden s"
  "loadingAborted (parseCurrentPage s) = loadingAborted s"
  "isLoadingAllPages (parseCurrentPage s) = isLoadingAllPages s"
  by (simp_all add: parseCurrentPage_def split: option.splits)


lemma tryBlock_Inr:
  "tryBlock w totalPages s =
     (let s1 = parseCurrentPage s; r = pageLoop w totalPages 2 s1
      in if fst r then Inr (allPagesData (snd r), snd r)
         else Inr (allPagesData (hideOriginalPagination w (appendAllDataToTable (snd r))),
                   hideOriginalPagination w (appendAllDataToTable (snd r))))"
  by (simp add: tryBlock_def Let_def split: prod.splits)

lemma loadAllPages_running:
  assumes "\<not> isLoadingAllPages s" "1 < getTotalPages (dom w)"
  shows "loadAllPages w s =
     (let r = pageLoop w (getTotalPages (dom w)) 2
                (parseCurrentPage (s\<lparr>isLoadingAllPages := True, loadingAborted := False\<rparr>))
      in if fst r then (allPagesData (snd r), finallyBlock (snd r))
         else (allPagesData (hideOriginalPagination w (appendAllDataToTable (snd r))),
               finallyBlock (hideOriginalPagination w (appendAllDataToTable (snd r)))))"
  using assms by (simp add: loadAllPages_def tryBlock_Inr Let_def)

lemma after_loop_alerts:
  "alerts (hideOriginalPagination w (appendAllDataToTable s)) = alerts s"
  by (simp add: hideOriginalPagination_def appendAllDataToTable_def split: option.splits)

lemma loadAllPages_alerts: "alerts (snd (loadAllPages w s)) = alerts s"
proof (cases "isLoadingAllPages s")
  case True
  then show ?thesis by (simp add: loadAllPages_def)
next
  case False
  show ?thesis
  proof (cases "1 < getTotalPages (dom w)")
    case False
    then show ?thesis using \<open>\<not> isLoadingAllPages s\<close>
      by (simp add: loadAllPages_def Let_def parseCurrentPage_fields)
  next
    case True
    let ?s1 = "s\<lparr>isLoadingAllPages := True, loadingAborted := False\<rparr>"
    let ?r = "pageLoop w (getTotalPages (dom w)) 2 (parseCurrentPage ?s1)"
    have "alerts (snd ?r) = alerts s"
      using pageLoop_frame[of w "getTotalPages (dom w)" 2 "parseCurrentPage ?s1"]
      by (simp add: parseCurrentPage_fields)
    then show ?thesis
      unfolding loadAllPages_running[OF False True]
      by (simp add: Let_def finallyBlock_def after_loop_alerts)
  qed
qed

lemma loadPageData_both_fail:
  assumes "fetch_fails w (getPageRequest (dom w) p)" "fetch_fails w (buildFilteredPageRequest (dom w) p)"
  shows "loadPageData w p = ([], [getPageRequest (dom w) p, buildFilteredPageRequest (dom w) p])"
proof -
  have "caught (fetchPage w req) = []" if "fetch_fails w req" for req
    using that by (cases "respond w req") (auto simp: fetch_fails_def fetchPage_def caught_def)
  then show ?thesis using assms by (simp add: loadPageData_def loadPageDataGET_def Let_def)
qed

lemma after_loop_table:
  "tableBody s = Some rws \<Longrightarrow>
   tableBody (hideOriginalPagination w (appendAllDataToTable s))
     = Some (map (\<lambda>entry. cloneNode (element entry)) (allPagesData s))
   \<and> allPagesData (hideOriginalPagination w (appendAllDataToTable s)) = map detached (allPagesData s)
   \<and> requests (hideOriginalPagination w (appendAllDataToTable s)) = requests s"
  by (simp add: hideOriginalPagination_def appendAllDataToTable_def split: option.splits)

text \<open>
  C2 (amended). When the GET fetch of a page and its fallback POST fetch both fail
  (non-2xx status or transport error), \<open>loadPageData\<close> settles both failures itself and
  yields the empty list for that page. \<open>loadAllPages\<close> raises no alert, on any run. A run
  that starts on a page with more than one page and a table body, and that no cancel
  interrupts, goes through every page from 2 to the last, whatever fails, and then
  replaces the rows of the table body by clones of the rows of the current page and of
  every page that yielded records.
\<close>

theorem loadAllPages_failed_fetch:
  "alerts (snd (loadAllPages w s)) = alerts s
   \<and> (fetch_fails w (getPageRequest (dom w) p) \<and> fetch_fails w (buildFilteredPageRequest (dom w) p)
        \<longrightarrow> loadPageData w p = ([], [getPageRequest (dom w) p, buildFilteredPageRequest (dom w) p]))
   \<and> (\<not> isLoadingAllPages s \<and> 1 < getTotalPages (dom w) \<and> tableBody s = Some rws
        \<and> (\<forall>q. 2 \<le> q \<and> int q < getTotalPages (dom w) \<longrightarrow> \<not> cancelDuring w q)
        \<longrightarrow> fst (loadAllPages w s)
              = map detached (parse_rows (tbody_rows rws)
                  @ concat (map (\<lambda>q. fst (loadPageData w q)) [2..<nat (getTotalPages (dom w) + 1)]))
          \<and> tableBody (snd (loadAllPages w s))
              = Some (map (\<lambda>entry. cloneNode (element entry)) (parse_rows (tbody_rows rws)
                  @ concat (map (\<lambda>q. fst (loadPageData w q)) [2..<nat (getTotalPages (dom w) + 1)])))
          \<and> requests (snd (loadAllPages w s))
              = requests s @ concat (map (\<lambda>q. snd (loadPageData w q)) [2..<nat (getTotalPages (dom w) + 1)]))"
proof (intro conjI impI)
  show "alerts (snd (loadAllPages w s)) = alerts s" by (rule loadAllPages_alerts)
next
  assume "fetch_fails w (getPageRequest (dom w) p) \<and> fetch_fails w (buildFilteredPageRequest (dom w) p)"
  then show "loadPageData w p = ([], [getPageRequest (dom w) p, buildFilteredPageRequest (dom w) p])"
    using loadPageData_both_fail by blast
next
  assume a: "\<not> isLoadingAllPages s \<and> 1 < getTotalPages (dom w) \<and> tableBody s = Some rws
        \<and> (\<forall>q. 2 \<le> q \<and> int q < getTotalPages (dom w) \<longrightarrow> \<not> cancelDuring w q)"
  let ?s1 = "parseCurrentPage (s\<lparr>isLoadingAllPages := True, loadingAborted := False\<rparr>)"
  let ?t = "getTotalPages (dom w)"
  let ?all = "parse_rows (tbody_rows rws) @ concat (map (\<lambda>q. fst (loadPageData w q)) [2..<nat (?t + 1)])"
  have s1: "\<not> loadingAborted ?s1" "tableBody ?s1 = Some rws" "requests ?s1 = requests s"
    "allPagesData ?s1 = parse_rows (tbody_rows rws)"
    using a by (simp_all add: parseCurrentPage_def)
  obtain s' where l: "pageLoop w ?t 2 ?s1 = (False, s')"
    and d: "allPagesData s' = ?all"
      "requests s' = requests s @ concat (map (\<lambda>q. snd (loadPageData w q)) [2..<nat (?t + 1)])"
      "tableBody s' = Some rws"
    using pageLoop_completed[of ?s1 2 ?t w] a s1 by auto
  have r: "loadAllPages w s =
      (allPagesData (hideOriginalPagination w (appendAllDataToTable s')),
       finallyBlock (hideOriginalPagination w (appendAllDataToTable s')))"
    using a l by (simp add: loadAllPages_running Let_def)
  show "fst (loadAllPages w s) = map detached ?all"
    unfolding r using after_loop_table[OF d(3), of w] d(1) by simp
  show "tableBody (snd (loadAllPages w s)) = Some (map (\<lambda>entry. cloneNode (element entry)) ?all)"
    unfolding r using after_loop_table[OF d(3), of w] d(1) by (simp add: finallyBlock_def)
  show "requests (snd (loadAllPages w s))
      = requests s @ concat (map (\<lambda>q. snd (loadPageData w q)) [2..<nat (?t + 1)])"
    unfolding r using after_loop_table[OF d(3), of w] d(2) by (simp add: finallyBlock_def)
qed

theorem loadAllPages_failed_fetch_witness:
  "fetch_fails world_failing_page (getPageRequest (dom world_failing_page) 2)
   \<and> fetch_fails world_failing_page (buildFilteredPageRequest (dom world_failing_page) 2)
   \<and> fst (loadPageData world_failing_page 2) = []
   \<and> alerts (snd (loadAllPages world_failing_page idle_loader)) = []"
proof -
  have f: "fetch_fails world_failing_page (getPageRequest (dom world_failing_page) 2)"
    "fetch_fails world_failing_page (buildFilteredPageRequest (dom world_failing_page) 2)"
    by code_simp+
  have a: "alerts idle_loader = []" by (simp add: idle_loader_def)
  have "loadPageData world_failing_page 2
      = ([], [getPageRequest (dom world_failing_page) 2, buildFilteredPageRequest (dom world_failing_page) 2])"
    and "alerts (snd (loadAllPages world_failing_page idle_loader)) = alerts idle_loader"
    using loadAllPages_failed_fetch[of world_failing_page idle_loader 2] f by blast+
  then show ?thesis using f a by simp
qed

text \<open>Three pages, and both fetches of page 2 fail: no alert is raised, page 3 is still fetched, and the table body ends with two rows where it had one.\<close>

theorem loadAllPages_failed_fetch_counterexample:
  "fetch_fails world_failing_page (getPageRequest (dom world_failing_page) 2)
   \<and> fetch_fails world_failing_page (buildFilteredPageRequest (dom world_failing_page) 2)
   \<and> alerts (snd (loadAllPages world_failing_page idle_loader)) = []
   \<and> map rank (fst (loadAllPages world_failing_page idle_loader)) = [1, 3]
   \<and> map_option length (tableBody idle_loader) = Some 1
   \<and> map_option length (tableBody (snd (loadAllPages world_failing_page idle_loader))) = Some 2
   \<and> map httpMethod (requests (snd (loadAllPages world_failing_page idle_loader))) = [GET, POST, GET]"
  by code_simp




text \<open>
  With the in-progress flag set, a call of \<open>loadAllPages\<close> starts no run and sends no
  request: it returns the current accumulated record list and leaves the state of the
  loader, the request log included, as it is.
\<close>

lemma loadAllPages_guard:
  assumes "isLoadingAllPages s"
  shows "loadAllPages w s = (allPagesData s, s)"
  using assms by (simp add: loadAllPages_def)

lemma loadAllPages_guard_example:
  "isLoadingAllPages busy_loader
   \<and> fst (loadAllPages world_failing_page busy_loader) = table_blank_times
   \<and> requests (snd (loadAllPages world_failing_page busy_loader)) = []"
proof -
  have b: "isLoadingAllPages busy_loader" by (simp add: busy_loader_def)
  have "allPagesData busy_loader = table_blank_times" "requests busy_loader = []"
    by (simp_all add: busy_loader_def idle_loader_def)
  then show ?thesis using loadAllPages_guard[OF b, of world_failing_page] b by simp
qed

text \<open>The same among the events of the page: the call is no event at all.\<close>

lemma step_call_guard: "isLoadingAllPages (shared t) \<Longrightarrow> step w t CallLoadAllPages = t"
  by (simp add: startCall_def)

lemma loopTest_waits: "loopTest w n pageNo shown s = (Some r, s') \<Longrightarrow> s' = s"
  by (auto simp: loopTest_def split: if_splits)

lemma startCall_waits: "startCall w s = (Some r, s') \<Longrightarrow> isLoadingAllPages s'"
  by (auto simp: startCall_def Let_def parseCurrentPage_fields dest!: loopTest_waits split: if_splits)

lemma continueRun_waits:
  "continueRun w r s = (Some r', s') \<Longrightarrow> isLoadingAllPages s' = isLoadingAllPages s"
  by (auto simp: continueRun_def Let_def dest!: loopTest_waits split: wait_point.splits prod.splits if_splits)

lemma step_one_at_most:
  assumes "one_at_most t" "\<not> is_cancel e"
  shows "one_at_most (step w t e)"
proof (cases e)
  case CallLoadAllPages
  show ?thesis
  proof (cases "isLoadingAllPages (shared t)")
    case True
    show ?thesis unfolding CallLoadAllPages step_call_guard[OF True] by (rule assms(1))
  next
    case False
    then have e: "inFlight t = []" using assms(1) by (auto simp: one_at_most_def)
    obtain nxt s where c: "startCall w (shared t) = (nxt, s)" by (cases "startCall w (shared t)")
    show ?thesis
    proof (cases nxt)
      case None
      then show ?thesis using c e CallLoadAllPages by (simp add: one_at_most_def)
    next
      case (Some r)
      then show ?thesis using c e CallLoadAllPages startCall_waits[of w "shared t" r s]
        by (simp add: one_at_most_def)
    qed
  qed
next
  case (ClickCancel i)
  then show ?thesis using assms(2) by simp
next
  case (Continue i)
  show ?thesis
  proof (cases "i < length (inFlight t)")
    case False
    then show ?thesis using assms(1) Continue by simp
  next
    case True
    then have i: "i = 0" and l: "length (inFlight t) = 1" using assms(1) by (auto simp: one_at_most_def)
    have f: "isLoadingAllPages (shared t)" using assms(1) l by (auto simp: one_at_most_def)
    obtain nxt s where c: "continueRun w (inFlight t ! i) (shared t) = (nxt, s)"
      by (cases "continueRun w (inFlight t ! i) (shared t)")
    show ?thesis
    proof (cases nxt)
      case None
      then show ?thesis using c True i l Continue by (simp add: one_at_most_def)
    next
      case (Some r)
      then show ?thesis using c True l f Continue continueRun_waits[of w "inFlight t ! i" "shared t" r s]
        by (simp add: one_at_most_def)
    qed
  qed
qed

text \<open>
  As long as no cancel control is used, the guard does what it is there for: whatever calls
  are made and continued, at most one call waits.
\<close>

lemma run_events_one_at_most:
  "one_at_most t \<Longrightarrow> \<not> list_ex is_cancel evs \<Longrightarrow> one_at_most (run_events w evs t)"
  unfolding run_events_def
  by (induction evs arbitrary: t) (auto simp: step_one_at_most)

lemma one_run_without_cancel:
  assumes "inFlight t = []" "\<not> list_ex is_cancel evs"
  shows "length (inFlight (run_events w evs t)) \<le> 1"
proof -
  have "one_at_most t" using assms(1) by (simp add: one_at_most_def)
  then have "one_at_most (run_events w evs t)" using assms(2) by (rule run_events_one_at_most)
  then show ?thesis by (simp add: one_at_most_def)
qed

lemma one_run_without_cancel_example:
  "inFlight idle_session = [] \<and> \<not> list_ex is_cancel one_run
   \<and> length (inFlight (run_events good_world (take 3 one_run) idle_session)) = 1"
  by code_simp

text \<open>A single call continued to its end leaves the loader as \<open>loadAllPages\<close> run in one piece does.\<close>

lemma one_run_as_loadAllPages:
  "shared (run_events good_world one_run idle_session) = snd (loadAllPages good_world idle_loader)
   \<and> inFlight (run_events good_world one_run idle_session) = []"
  by code_simp

text \<open>A cancelled call that is left alone takes the page it waits for and stops.\<close>

lemma cancelled_run_stops:
  "map requested_page (requests (shared (run_events good_world
       [CallLoadAllPages, ClickCancel 0, Continue 0, Continue 0] idle_session))) = [Some ''2'']
   \<and> inFlight (run_events good_world
       [CallLoadAllPages, ClickCancel 0, Continue 0, Continue 0] idle_session) = []"
  by code_simp

text \<open>
  C4. At most one aggregation is in flight for a table: this is what the guard of
  \<open>loadAllPages\<close> is for, and the code misses it. The cancel handler clears the
  in-progress flag, and enables the load control again, while the cancelled call still
  waits for its page. A call made then passes the guard, starts a second run and sets
  \<open>loadingAborted\<close> back to false, so the cancelled call is not stopped either. On a page
  with three pages of results, after a call, a click on its cancel control and a second
  call, two calls wait for page 2; continued, each of them requests the pages 2 and 3, and
  the records of these pages are in the accumulated list twice.
\<close>

theorem loadAllPages_restart_after_cancel:
  "map waitsAt (inFlight (run_events good_world [CallLoadAllPages] idle_session)) = [PageFetch 2]
   \<and> isLoadingAllPages (shared (run_events good_world [CallLoadAllPages] idle_session))
   \<and> isLoadingAllPages (shared (run_events good_world [CallLoadAllPages, ClickCancel 0] idle_session)) = False
   \<and> map waitsAt (inFlight (run_events good_world restart_after_cancel idle_session))
       = [PageFetch 2, PageFetch 2]
   \<and> loadingAborted (shared (run_events good_world restart_after_cancel idle_session)) = False
   \<and> map requested_page
         (requests (shared (run_events good_world (restart_after_cancel @ both_to_the_end) idle_session)))
       = [Some ''2'', Some ''2'', Some ''3'', Some ''3'']
   \<and> map rank (allPagesData (shared (run_events good_world (restart_after_cancel @ both_to_the_end) idle_session)))
       = [1, 2, 2, 3, 3]"
  by code_simp

end
